theory Spec2Isabelle
  imports Main "HOL-Library.Sublist"
begin

section \<open>JavaScript strings\<close>

text \<open>
  A JavaScript string is its sequence of UTF-16 code units. The markers, commands and
  paths of the program are ASCII; the contents of the SSH daemon configuration, names
  and directories are arbitrary. \<open>js\<close> turns a literal into its code units.
\<close>

type_synonym jsstring = "nat list"

definition js :: "string \<Rightarrow> jsstring" where
  "js s = map of_char s"

text \<open>\<^verbatim>\<open>String.prototype.indexOf\<close>: the first index at which the needle starts, \<open>None\<close> for -1.\<close>

fun indexOf :: "jsstring \<Rightarrow> jsstring \<Rightarrow> nat option" where
  "indexOf [] m = (if m = [] then Some 0 else None)"
| "indexOf (c # s) m =
     (if prefix m (c # s) then Some 0 else map_option Suc (indexOf s m))"

text \<open>
  \<^verbatim>\<open>String.prototype.trimEnd\<close> removes trailing WhiteSpace and LineTerminator code
  units: TAB, VT, FF, SP, NBSP, ZWNBSP, the space separators (category Zs), LF, CR, LS, PS.
\<close>

definition isWhiteSpace :: "nat \<Rightarrow> bool" where
  "isWhiteSpace c =
     (c = 9 \<or> c = 10 \<or> c = 11 \<or> c = 12 \<or> c = 13 \<or> c = 32 \<or> c = 160 \<or> c = 5760 \<or>
      (8192 \<le> c \<and> c \<le> 8202) \<or> c = 8232 \<or> c = 8233 \<or> c = 8239 \<or> c = 8287 \<or>
      c = 12288 \<or> c = 65279)"

definition trimEnd :: "jsstring \<Rightarrow> jsstring" where
  "trimEnd s = rev (dropWhile isWhiteSpace (rev s))"

text \<open>\<^verbatim>\<open>s.startsWith('/')\<close>.\<close>

definition startsWithSlash :: "jsstring \<Rightarrow> bool" where
  "startsWithSlash s = (case s of [] \<Rightarrow> False | c # _ \<Rightarrow> c = 47)"

text \<open>The decimal digits of a number, as a template literal prints \<^verbatim>\<open>Date.now()\<close>.\<close>

fun decimal :: "nat \<Rightarrow> jsstring" where
  "decimal n = (if n < 10 then [48 + n] else decimal (n div 10) @ [48 + n mod 10])"

declare decimal.simps [simp del]

text \<open>\<^verbatim>\<open>Array.prototype.join\<close> and \<^verbatim>\<open>String.prototype.split\<close> on one separator.\<close>

fun join_with :: "jsstring \<Rightarrow> jsstring list \<Rightarrow> jsstring" where
  "join_with sep [] = []"
| "join_with sep [x] = x"
| "join_with sep (x # y # ys) = x @ sep @ join_with sep (y # ys)"

fun split_on :: "nat \<Rightarrow> jsstring \<Rightarrow> jsstring list" where
  "split_on sep [] = [[]]"
| "split_on sep (c # s) =
     (if c = sep then [] # split_on sep s
      else (case split_on sep s of [] \<Rightarrow> [[c]] | x # xs \<Rightarrow> (c # x) # xs))"

section \<open>Node's path.join (POSIX)\<close>

text \<open>
  \<^verbatim>\<open>path.join\<close> belongs to the Node.js runtime: it joins the non-empty arguments with
  \<open>/\<close> and normalises the result. \<open>normalizeSegments\<close> is the runtime's
  \<^verbatim>\<open>normalizeString\<close> read segment by segment: empty segments and \<open>.\<close> are dropped,
  \<open>..\<close> removes the segment before it (above the root it is dropped for an absolute
  path and kept for a relative one).
\<close>

fun normalizeSegments :: "bool \<Rightarrow> jsstring list \<Rightarrow> jsstring list \<Rightarrow> jsstring list" where
  "normalizeSegments allowAboveRoot res [] = res"
| "normalizeSegments allowAboveRoot res (seg # segs) =
     (if seg = [] \<or> seg = [46] then normalizeSegments allowAboveRoot res segs
      else if seg = [46, 46] then
        (if res \<noteq> [] \<and> last res \<noteq> [46, 46]
         then normalizeSegments allowAboveRoot (butlast res) segs
         else if allowAboveRoot
         then normalizeSegments allowAboveRoot (res @ [[46, 46]]) segs
         else normalizeSegments allowAboveRoot res segs)
      else normalizeSegments allowAboveRoot (res @ [seg]) segs)"

definition normalize :: "jsstring \<Rightarrow> jsstring" where
  "normalize p =
     (if p = [] then [46]
      else
        let isAbsolute = (hd p = 47);
            trailingSeparator = (last p = 47);
            q = join_with [47] (normalizeSegments (\<not> isAbsolute) [] (split_on 47 p))
        in if q = [] then (if isAbsolute then [47] else if trailingSeparator then [46, 47] else [46])
           else (if isAbsolute then [47] else []) @ q @ (if trailingSeparator then [47] else []))"

definition path_join :: "jsstring list \<Rightarrow> jsstring" where
  "path_join args =
     (let parts = filter (\<lambda>a. a \<noteq> []) args
      in if parts = [] then [46] else normalize (join_with [47] parts))"

section \<open>Constants (config/constants.js)\<close>

definition BASE_PATH :: jsstring where
  "BASE_PATH = js ''/var/www''"

definition SFTP_USER_PREFIX :: jsstring where
  "SFTP_USER_PREFIX = js ''sftp_''"

definition SFTP_GROUP :: jsstring where
  "SFTP_GROUP = js ''sftpusers''"

definition SSH_CONFIG_PATH :: jsstring where
  "SSH_CONFIG_PATH = js ''/etc/ssh/sshd_config''"

definition STRUCTURE_sites :: jsstring where
  "STRUCTURE_sites = js ''sites''"

definition STRUCTURE_scripts :: jsstring where
  "STRUCTURE_scripts = js ''scripts''"

definition STRUCTURE_config :: jsstring where
  "STRUCTURE_config = js ''project.json''"

definition TOOL_CONFIG_PATH :: jsstring where
  "TOOL_CONFIG_PATH = js ''/etc/nodejs-project-manager''"

definition PROJECTS_CONFIG_FILE :: jsstring where
  "PROJECTS_CONFIG_FILE = js ''/etc/nodejs-project-manager/projects.json''"

definition SFTP_CONFIG_MARKER :: jsstring where
  "SFTP_CONFIG_MARKER = js ''# === NODEJS PROJECT MANAGER SFTP CONFIG ===''"

definition SFTP_CONFIG_END_MARKER :: jsstring where
  "SFTP_CONFIG_END_MARKER = js ''# === END NODEJS PROJECT MANAGER SFTP CONFIG ===''"

section \<open>The world the program acts on\<close>

text \<open>
  Everything outside the process is external: the operating system, the process
  supervisor, the SSH daemon, the directory tree. The program's calls to them are
  recorded, with their outcome, in a trace; what such a call answers is given by an
  environment that may depend on everything that happened before. Files whose contents
  the program reads back (the SSH daemon configuration, the global registry, the
  per-project documents) are part of the state.

  An event is a shell command (with its working directory, when one is given) or a call
  of \<^verbatim>\<open>fs\<close> that changes the directory tree, together with whether it succeeded.
  Reads and existence tests change nothing and are not recorded.
\<close>

datatype fs_op =
    MkDir jsstring
  | CopyFile jsstring jsstring
  | WriteFile jsstring
  | RmTree jsstring

datatype event =
    Exec jsstring "jsstring option" bool
  | Fs fs_op bool

text \<open>The logger's entry points; the message text is not modelled.\<close>

datatype log_level = INFO | SUCCESS | ERROR | WARN | DEBUG

text \<open>An entry of the global registry: \<^verbatim>\<open>{name, path, sftpUser, createdAt}\<close>.\<close>

record project =
  p_name :: jsstring
  p_path :: jsstring
  p_sftpUser :: jsstring
  p_createdAt :: nat

text \<open>
  A service of a project's own document. Timestamps are milliseconds (the program stores
  them as ISO strings). Every record that \<^verbatim>\<open>addService\<close> writes has all the
  fields, and a stored record that lacks one is not modelled: \<^verbatim>\<open>pm2Name\<close> is always
  a string, possibly the empty one.
\<close>

record service =
  name :: jsstring
  directory :: jsstring
  setupCommands :: "jsstring list"
  command :: jsstring
  description :: jsstring
  pm2Name :: jsstring
  createdAt :: nat
  updatedAt :: "nat option"

text \<open>
  A project's own document (\<^verbatim>\<open>project.json\<close>). The default document of
  \<^verbatim>\<open>loadProjectConfig\<close> has no \<^verbatim>\<open>path\<close> and no \<^verbatim>\<open>sftpUser\<close>.
\<close>

record project_config =
  c_name :: jsstring
  c_path :: "jsstring option"
  c_sftpUser :: "jsstring option"
  services :: "service list"
  c_createdAt :: nat
  c_updatedAt :: "nat option"

text \<open>
  A JSON file on disk: \<open>Unreadable\<close> when \<^verbatim>\<open>readFileSync\<close> throws,
  \<open>Unparseable\<close> when \<^verbatim>\<open>JSON.parse\<close> (or the first property read of its result)
  throws, \<open>Doc\<close> with the document otherwise. The registry document holds its
  \<^verbatim>\<open>projects\<close> array, \<open>None\<close> when the key is absent. Documents of another
  shape than the one the tool writes (a \<^verbatim>\<open>projects\<close> value that is not an array of
  entries, a project document without a \<^verbatim>\<open>services\<close> array) are not modelled.

  The configuration directory of the tool and the registry file in it: the directory
  may be missing, or the file in it, or the file is there.
\<close>

datatype 'a json_file = Unreadable | Unparseable | Doc 'a

datatype registry_store =
    NoConfigDir
  | NoRegistryFile
  | RegistryFile "project list option json_file"

text \<open>
  The state: the text of the SSH daemon configuration (\<open>None\<close> when it cannot be
  read), the backups made of it (path and content), the registry, the per-project
  documents by path (\<open>None\<close> when there is no file), the trace and the log.
\<close>

record world =
  ssh_config :: "jsstring option"
  backups :: "(jsstring \<times> jsstring) list"
  registry :: registry_store
  configs :: "jsstring \<Rightarrow> project_config json_file option"
  trace :: "event list"
  logs :: "log_level list"

text \<open>
  The environment, each answer depending on the trace so far: whether a shell command
  succeeds, the names in the parsed output of \<^verbatim>\<open>pm2 jlist\<close> (\<open>None\<close> when it does
  not parse), whether a file system call succeeds, whether a path exists, and the clock.
\<close>

record env =
  cmd_ok :: "event list \<Rightarrow> jsstring \<Rightarrow> jsstring option \<Rightarrow> bool"
  pm2_jlist :: "event list \<Rightarrow> jsstring list option"
  fs_ok :: "event list \<Rightarrow> fs_op \<Rightarrow> bool"
  path_exists :: "event list \<Rightarrow> jsstring \<Rightarrow> bool"
  now :: "event list \<Rightarrow> nat"

text \<open>
  The errors the program throws, one constructor for each \<^verbatim>\<open>throw\<close> site of the
  modelled functions; the first four are the raw errors of the runtime.
\<close>

datatype error =
    CommandFailed jsstring
  | FsFailed fs_op
  | ReadFailed jsstring
  | JsonParseFailed
  | Pm2Error jsstring
  | SSHRestartFailed
  | UserExists jsstring
  | SSHReadFailed
  | SSHWriteFailed
  | SSHConfigInvalid
  | SaveProjectsFailed
  | SaveConfigFailed
  | InvalidProjectName
  | ProjectExists jsstring
  | DirectoryExists jsstring
  | ProjectMissing jsstring
  | InvalidServiceName
  | ServiceExists jsstring
  | ServiceMissing jsstring
  | ServiceDirMissing jsstring
  | SetupFailed jsstring
  | StartFailed
  | StopFailed
  | RestartFailed
  | NoServices

text \<open>
  A computation returns a value or throws, and leaves a world behind. \<open>and_then\<close> is
  sequencing, \<open>try_catch\<close> is \<^verbatim>\<open>try { ... } catch (e) { ... }\<close>.
\<close>

type_synonym 'a prog = "world \<Rightarrow> (error + 'a) \<times> world"

definition ret :: "'a \<Rightarrow> 'a prog" where
  "ret x w = (Inr x, w)"

definition throw :: "error \<Rightarrow> 'a prog" where
  "throw e w = (Inl e, w)"

definition and_then :: "'a prog \<Rightarrow> ('a \<Rightarrow> 'b prog) \<Rightarrow> 'b prog" where
  "and_then m f w = (case m w of (Inl e, w') \<Rightarrow> (Inl e, w') | (Inr x, w') \<Rightarrow> f x w')"

definition try_catch :: "'a prog \<Rightarrow> (error \<Rightarrow> 'a prog) \<Rightarrow> 'a prog" where
  "try_catch m h w = (case m w of (Inl e, w') \<Rightarrow> h e w' | (Inr x, w') \<Rightarrow> (Inr x, w'))"

definition get_world :: "world prog" where
  "get_world w = (Inr w, w)"

definition modify :: "(world \<Rightarrow> world) \<Rightarrow> unit prog" where
  "modify f w = (Inr (), f w)"

section \<open>utils/logger.js\<close>

definition logger :: "log_level \<Rightarrow> unit prog" where
  "logger l w = (Inr (), w\<lparr>logs := logs w @ [l]\<rparr>)"

section \<open>utils/shell.js and the file system calls\<close>

text \<open>
  \<^verbatim>\<open>execCommand\<close> and \<^verbatim>\<open>execSyncSafe\<close>: log, run, and on failure log and rethrow.
  The output of a command is only read for \<^verbatim>\<open>pm2 jlist\<close>.
\<close>

definition execCommand :: "env \<Rightarrow> jsstring \<Rightarrow> jsstring option \<Rightarrow> unit prog" where
  "execCommand e cmd cwd =
     and_then (logger DEBUG) (\<lambda>_.
     and_then get_world (\<lambda>w.
       let ok = cmd_ok e (trace w) cmd cwd in
       and_then (modify (\<lambda>w. w\<lparr>trace := trace w @ [Exec cmd cwd ok]\<rparr>)) (\<lambda>_.
       if ok then ret ()
       else and_then (logger DEBUG) (\<lambda>_. throw (CommandFailed cmd)))))"

definition execSyncSafe :: "env \<Rightarrow> jsstring \<Rightarrow> unit prog" where
  "execSyncSafe e cmd = execCommand e cmd None"

definition userExists :: "env \<Rightarrow> jsstring \<Rightarrow> bool prog" where
  "userExists e username =
     try_catch (and_then (execSyncSafe e (js ''id '' @ username)) (\<lambda>_. ret True))
       (\<lambda>_. ret False)"

definition groupExists :: "env \<Rightarrow> jsstring \<Rightarrow> bool prog" where
  "groupExists e groupname =
     try_catch (and_then (execSyncSafe e (js ''getent group '' @ groupname)) (\<lambda>_. ret True))
       (\<lambda>_. ret False)"

definition restartSSH :: "env \<Rightarrow> unit prog" where
  "restartSSH e =
     try_catch
       (and_then (execCommand e (js ''systemctl restart sshd'') None) (\<lambda>_. logger SUCCESS))
       (\<lambda>_. try_catch
          (and_then (execCommand e (js ''systemctl restart ssh'') None) (\<lambda>_. logger SUCCESS))
          (\<lambda>_. throw SSHRestartFailed))"

definition testSSHConfig :: "env \<Rightarrow> bool prog" where
  "testSSHConfig e =
     try_catch (and_then (execCommand e (js ''sshd -t'') None) (\<lambda>_. ret True))
       (\<lambda>_. and_then (logger ERROR) (\<lambda>_. ret False))"

definition pm2Command :: "env \<Rightarrow> jsstring \<Rightarrow> unit prog" where
  "pm2Command e args =
     try_catch (execCommand e (js ''pm2 '' @ args) None)
       (\<lambda>_. throw (Pm2Error args))"

text \<open>
  \<^verbatim>\<open>getPm2ProcessStatus\<close>: the entry of the supervisor's list with the given name, or
  null when there is none, when the command fails or when its output does not parse.
  An entry is represented by its name.
\<close>

definition getPm2ProcessStatus :: "env \<Rightarrow> jsstring \<Rightarrow> jsstring option prog" where
  "getPm2ProcessStatus e processName =
     try_catch
       (and_then (execCommand e (js ''pm2 jlist'') None) (\<lambda>_.
        and_then get_world (\<lambda>w.
          case pm2_jlist e (trace w) of
            None \<Rightarrow> throw (CommandFailed (js ''pm2 jlist''))
          | Some processes \<Rightarrow> ret (find (\<lambda>p. p = processName) processes))))
       (\<lambda>_. ret None)"

text \<open>
  A call of \<^verbatim>\<open>fs\<close> that changes the directory tree: recorded with its outcome; the
  raw error propagates. \<open>possible\<close> is what the state itself requires of the call
  (copying needs its source).
\<close>

definition fs_call :: "env \<Rightarrow> fs_op \<Rightarrow> bool \<Rightarrow> unit prog" where
  "fs_call e op possible =
     and_then get_world (\<lambda>w.
       let ok = (possible \<and> fs_ok e (trace w) op) in
       and_then (modify (\<lambda>w. w\<lparr>trace := trace w @ [Fs op ok]\<rparr>)) (\<lambda>_.
       if ok then ret () else throw (FsFailed op)))"

definition existsSync :: "env \<Rightarrow> jsstring \<Rightarrow> bool prog" where
  "existsSync e p w = (Inr (path_exists e (trace w) p), w)"

definition date_now :: "env \<Rightarrow> nat prog" where
  "date_now e w = (Inr (now e (trace w)), w)"

section \<open>modules/sftp.js\<close>

definition ensureSftpGroup :: "env \<Rightarrow> unit prog" where
  "ensureSftpGroup e =
     and_then (groupExists e SFTP_GROUP) (\<lambda>ex.
       if \<not> ex then
         and_then (logger INFO) (\<lambda>_.
         and_then (execCommand e (js ''groupadd '' @ SFTP_GROUP) None) (\<lambda>_.
         logger SUCCESS))
       else logger DEBUG)"

definition createSftpUser :: "env \<Rightarrow> jsstring \<Rightarrow> jsstring \<Rightarrow> jsstring prog" where
  "createSftpUser e projectName password =
     (let username = SFTP_USER_PREFIX @ projectName;
          projectPath = path_join [BASE_PATH, projectName];
          sitesPath = path_join [projectPath, js ''sites'']
      in
      and_then (userExists e username) (\<lambda>ex.
        if ex then throw (UserExists username)
        else
          and_then (ensureSftpGroup e) (\<lambda>_.
          and_then (logger INFO) (\<lambda>_.
          and_then (execCommand e
            (js ''useradd -g '' @ SFTP_GROUP @ js '' -d '' @ projectPath @
             js '' -s /usr/sbin/nologin '' @ username) None) (\<lambda>_.
          and_then (execCommand e
            (js ''echo '' @ [34] @ username @ js '':'' @ password @ [34] @ js '' | chpasswd'')
            None) (\<lambda>_.
          and_then (execCommand e (js ''chown root:root '' @ projectPath) None) (\<lambda>_.
          and_then (execCommand e (js ''chmod 755 '' @ projectPath) None) (\<lambda>_.
          and_then (execCommand e
            (js ''chown '' @ username @ js '':'' @ SFTP_GROUP @ js '' '' @ sitesPath) None) (\<lambda>_.
          and_then (execCommand e (js ''chmod 755 '' @ sitesPath) None) (\<lambda>_.
          and_then (logger SUCCESS) (\<lambda>_.
          ret username)))))))))))"

definition deleteSftpUser :: "env \<Rightarrow> jsstring \<Rightarrow> unit prog" where
  "deleteSftpUser e projectName =
     (let username = SFTP_USER_PREFIX @ projectName in
      and_then (userExists e username) (\<lambda>ex.
        if \<not> ex then logger WARN
        else
          and_then (logger INFO) (\<lambda>_.
          and_then (try_catch (execCommand e (js ''pkill -u '' @ username) None)
                      (\<lambda>_. ret ())) (\<lambda>_.
          and_then (execCommand e (js ''userdel '' @ username) None) (\<lambda>_.
          logger SUCCESS)))))"

definition readSSHConfig :: "jsstring prog" where
  "readSSHConfig =
     and_then get_world (\<lambda>w.
       case ssh_config w of None \<Rightarrow> throw SSHReadFailed | Some content \<Rightarrow> ret content)"

definition writeSSHConfig :: "env \<Rightarrow> jsstring \<Rightarrow> unit prog" where
  "writeSSHConfig e content =
     try_catch
       (and_then (date_now e) (\<lambda>t.
          let backupPath = SSH_CONFIG_PATH @ js ''.backup.'' @ decimal t in
          and_then get_world (\<lambda>w.
          and_then
            (case ssh_config w of
               None \<Rightarrow> fs_call e (CopyFile SSH_CONFIG_PATH backupPath) False
             | Some original \<Rightarrow>
                 and_then (fs_call e (CopyFile SSH_CONFIG_PATH backupPath) True) (\<lambda>_.
                 modify (\<lambda>w. w\<lparr>backups := backups w @ [(backupPath, original)]\<rparr>))) (\<lambda>_.
          and_then (logger DEBUG) (\<lambda>_.
          and_then (fs_call e (WriteFile SSH_CONFIG_PATH) True) (\<lambda>_.
          modify (\<lambda>w. w\<lparr>ssh_config := Some content\<rparr>)))))))
       (\<lambda>_. throw SSHWriteFailed)"

definition generateSftpConfig :: "project list \<Rightarrow> jsstring" where
  "generateSftpConfig projects =
     (if projects = [] then []
      else
        [10] @ SFTP_CONFIG_MARKER @ [10] @
        js ''# Configuration g'' @ [233] @ js ''n'' @ [233] @ js ''r'' @ [233] @
        js ''e automatiquement - Ne pas modifier manuellement'' @ [10, 10] @
        js ''Match Group '' @ SFTP_GROUP @ [10] @
        js ''    ChrootDirectory %h'' @ [10] @
        js ''    ForceCommand internal-sftp'' @ [10] @
        js ''    AllowTcpForwarding no'' @ [10] @
        js ''    X11Forwarding no'' @ [10] @
        js ''    PasswordAuthentication yes'' @ [10] @
        [10] @ SFTP_CONFIG_END_MARKER @ [10])"

text \<open>
  The two text steps of \<^verbatim>\<open>updateSSHConfig\<close>: cutting the old block out when both
  markers are found, and appending the new block to the trimmed rest.
\<close>

definition removeOldConfig :: "jsstring \<Rightarrow> jsstring" where
  "removeOldConfig sshConfig =
     (case (indexOf sshConfig SFTP_CONFIG_MARKER, indexOf sshConfig SFTP_CONFIG_END_MARKER) of
        (Some startIndex, Some endIndex) \<Rightarrow>
          take startIndex sshConfig @
          drop (endIndex + length SFTP_CONFIG_END_MARKER) sshConfig
      | _ \<Rightarrow> sshConfig)"

definition newSSHConfig :: "project list \<Rightarrow> jsstring \<Rightarrow> jsstring" where
  "newSSHConfig projects sshConfig =
     trimEnd (removeOldConfig sshConfig) @ generateSftpConfig projects"

definition updateSSHConfig :: "env \<Rightarrow> project list \<Rightarrow> unit prog" where
  "updateSSHConfig e projects =
     and_then (logger INFO) (\<lambda>_.
     and_then readSSHConfig (\<lambda>sshConfig.
     and_then (writeSSHConfig e (newSSHConfig projects sshConfig)) (\<lambda>_.
     and_then (testSSHConfig e) (\<lambda>isValid.
       if \<not> isValid then throw SSHConfigInvalid
       else and_then (restartSSH e) (\<lambda>_. logger SUCCESS)))))"

section \<open>modules/projects.js\<close>

text \<open>The name pattern \<^verbatim>\<open>/^[a-zA-Z][a-zA-Z0-9_-]*$/\<close>.\<close>

definition isLetter :: "nat \<Rightarrow> bool" where
  "isLetter c = ((65 \<le> c \<and> c \<le> 90) \<or> (97 \<le> c \<and> c \<le> 122))"

definition isNameChar :: "nat \<Rightarrow> bool" where
  "isNameChar c = (isLetter c \<or> (48 \<le> c \<and> c \<le> 57) \<or> c = 95 \<or> c = 45)"

definition validName :: "jsstring \<Rightarrow> bool" where
  "validName s = (case s of [] \<Rightarrow> False | c # cs \<Rightarrow> isLetter c \<and> list_all isNameChar cs)"

definition initConfigDir :: "env \<Rightarrow> unit prog" where
  "initConfigDir e =
     and_then get_world (\<lambda>w.
     and_then
       (if registry w = NoConfigDir then
          and_then (fs_call e (MkDir TOOL_CONFIG_PATH) True) (\<lambda>_.
          and_then (modify (\<lambda>w. w\<lparr>registry := NoRegistryFile\<rparr>)) (\<lambda>_.
          logger DEBUG))
        else ret ()) (\<lambda>_.
     and_then get_world (\<lambda>w.
       if registry w = NoRegistryFile then
         and_then (fs_call e (WriteFile PROJECTS_CONFIG_FILE) True) (\<lambda>_.
         and_then (modify (\<lambda>w. w\<lparr>registry := RegistryFile (Doc (Some []))\<rparr>)) (\<lambda>_.
         logger DEBUG))
       else ret ())))"

definition loadProjects :: "env \<Rightarrow> project list prog" where
  "loadProjects e =
     try_catch
       (and_then (initConfigDir e) (\<lambda>_.
        and_then get_world (\<lambda>w.
          case registry w of
            RegistryFile (Doc config) \<Rightarrow>
              ret (case config of None \<Rightarrow> [] | Some projects \<Rightarrow> projects)
          | RegistryFile Unparseable \<Rightarrow> throw JsonParseFailed
          | _ \<Rightarrow> throw (ReadFailed PROJECTS_CONFIG_FILE))))
       (\<lambda>_. and_then (logger ERROR) (\<lambda>_. ret []))"

text \<open>The \<^verbatim>\<open>updatedAt\<close> stamp of the registry document is never read and is left out.\<close>

definition saveProjects :: "env \<Rightarrow> project list \<Rightarrow> unit prog" where
  "saveProjects e projects =
     try_catch
       (and_then (initConfigDir e) (\<lambda>_.
        and_then (fs_call e (WriteFile PROJECTS_CONFIG_FILE) True) (\<lambda>_.
        and_then (modify (\<lambda>w. w\<lparr>registry := RegistryFile (Doc (Some projects))\<rparr>)) (\<lambda>_.
        logger DEBUG))))
       (\<lambda>_. throw SaveProjectsFailed)"

definition getProject :: "env \<Rightarrow> jsstring \<Rightarrow> project option prog" where
  "getProject e projectName =
     and_then (loadProjects e) (\<lambda>projects.
       ret (find (\<lambda>p. p_name p = projectName) projects))"

definition projectExists :: "env \<Rightarrow> jsstring \<Rightarrow> bool prog" where
  "projectExists e projectName =
     and_then (getProject e projectName) (\<lambda>p. ret (p \<noteq> None))"

definition loadProjectConfig :: "env \<Rightarrow> jsstring \<Rightarrow> project_config prog" where
  "loadProjectConfig e projectName =
     (let configPath = path_join [BASE_PATH, projectName, STRUCTURE_config] in
      and_then get_world (\<lambda>w.
      and_then
        (try_catch
           (case configs w configPath of
              None \<Rightarrow> ret None
            | Some Unreadable \<Rightarrow> throw (ReadFailed configPath)
            | Some Unparseable \<Rightarrow> throw JsonParseFailed
            | Some (Doc config) \<Rightarrow> ret (Some config))
           (\<lambda>_. and_then (logger WARN) (\<lambda>_. ret None))) (\<lambda>loaded.
        case loaded of
          Some config \<Rightarrow> ret config
        | None \<Rightarrow>
            and_then (date_now e) (\<lambda>t.
              ret \<lparr>c_name = projectName, c_path = None, c_sftpUser = None, services = [],
                   c_createdAt = t, c_updatedAt = None\<rparr>))))"

text \<open>
  \<^verbatim>\<open>saveProjectConfig\<close> stamps the caller's object before it writes; the stamped
  document is returned so that the caller sees it, as it does through the shared object.
\<close>

definition saveProjectConfig :: "env \<Rightarrow> jsstring \<Rightarrow> project_config \<Rightarrow> project_config prog" where
  "saveProjectConfig e projectName config =
     (let configPath = path_join [BASE_PATH, projectName, STRUCTURE_config] in
      try_catch
        (and_then (date_now e) (\<lambda>t.
           let stamped = config\<lparr>c_updatedAt := Some t\<rparr> in
           and_then (fs_call e (WriteFile configPath) True) (\<lambda>_.
           and_then (modify (\<lambda>w. w\<lparr>configs := (configs w)(configPath := Some (Doc stamped))\<rparr>)) (\<lambda>_.
           and_then (logger DEBUG) (\<lambda>_.
           ret stamped)))))
        (\<lambda>_. throw SaveConfigFailed))"

definition createProject :: "env \<Rightarrow> jsstring \<Rightarrow> jsstring \<Rightarrow> project_config prog" where
  "createProject e projectName sftpPassword =
     (if \<not> validName projectName then throw InvalidProjectName
      else
        and_then (projectExists e projectName) (\<lambda>ex.
        if ex then throw (ProjectExists projectName)
        else
          let projectPath = path_join [BASE_PATH, projectName] in
          and_then (existsSync e projectPath) (\<lambda>dx.
          if dx then throw (DirectoryExists projectPath)
          else
            and_then (logger INFO) (\<lambda>_.
            let sitesPath = path_join [projectPath, STRUCTURE_sites];
                scriptsPath = path_join [projectPath, STRUCTURE_scripts]
            in
            and_then (fs_call e (MkDir projectPath) True) (\<lambda>_.
            and_then (fs_call e (MkDir sitesPath) True) (\<lambda>_.
            and_then (fs_call e (MkDir scriptsPath) True) (\<lambda>_.
            and_then (logger SUCCESS) (\<lambda>_.
            and_then (createSftpUser e projectName sftpPassword) (\<lambda>sftpUsername.
            and_then (date_now e) (\<lambda>t.
            and_then (saveProjectConfig e projectName
              \<lparr>c_name = projectName, c_path = Some projectPath,
               c_sftpUser = Some sftpUsername, services = [],
               c_createdAt = t, c_updatedAt = None\<rparr>) (\<lambda>projectConfig.
            and_then (loadProjects e) (\<lambda>projects.
            let projects' = projects @
                  [\<lparr>p_name = projectName, p_path = projectPath,
                    p_sftpUser = sftpUsername, p_createdAt = c_createdAt projectConfig\<rparr>]
            in
            and_then (saveProjects e projects') (\<lambda>_.
            and_then (updateSSHConfig e projects') (\<lambda>_.
            and_then (logger SUCCESS) (\<lambda>_.
            ret projectConfig)))))))))))))))"

text \<open>The loop of \<^verbatim>\<open>deleteProject\<close> over the declared services.\<close>

fun deleteProcesses :: "env \<Rightarrow> jsstring \<Rightarrow> service list \<Rightarrow> unit prog" where
  "deleteProcesses e projectName [] = ret ()"
| "deleteProcesses e projectName (s # ss) =
     and_then
       (try_catch (pm2Command e (js ''delete '' @ projectName @ js ''-'' @ name s))
          (\<lambda>_. ret ())) (\<lambda>_.
     deleteProcesses e projectName ss)"

definition rmSync :: "env \<Rightarrow> jsstring \<Rightarrow> unit prog" where
  "rmSync e p =
     and_then (fs_call e (RmTree p) True) (\<lambda>_.
     modify (\<lambda>w. w\<lparr>configs := (\<lambda>k. if prefix (p @ [47]) k then None else configs w k)\<rparr>))"

definition deleteProject :: "env \<Rightarrow> jsstring \<Rightarrow> bool \<Rightarrow> unit prog" where
  "deleteProject e projectName deleteFiles =
     and_then (getProject e projectName) (\<lambda>project.
     case project of
       None \<Rightarrow> throw (ProjectMissing projectName)
     | Some _ \<Rightarrow>
         and_then (logger INFO) (\<lambda>_.
         and_then
           (try_catch
              (and_then (loadProjectConfig e projectName) (\<lambda>projectConfig.
               deleteProcesses e projectName (services projectConfig)))
              (\<lambda>_. logger WARN)) (\<lambda>_.
         and_then (deleteSftpUser e projectName) (\<lambda>_.
         and_then (loadProjects e) (\<lambda>projects.
         let projects' = filter (\<lambda>p. p_name p \<noteq> projectName) projects in
         and_then (saveProjects e projects') (\<lambda>_.
         and_then (updateSSHConfig e projects') (\<lambda>_.
         and_then
           (if deleteFiles then
              (let projectPath = path_join [BASE_PATH, projectName] in
               and_then (existsSync e projectPath) (\<lambda>ex.
                 if ex then and_then (rmSync e projectPath) (\<lambda>_. logger SUCCESS)
                 else ret ()))
            else ret ()) (\<lambda>_.
         logger SUCCESS))))))))"

section \<open>modules/services.js\<close>

text \<open>
  The argument of \<^verbatim>\<open>addService\<close> and of \<^verbatim>\<open>updateService\<close>: objects whose optional
  keys may be absent (\<open>None\<close>).
\<close>

record service_input =
  in_name :: jsstring
  in_directory :: jsstring
  in_command :: "jsstring option"
  in_description :: "jsstring option"
  in_setupCommands :: "jsstring list option"

record service_updates =
  up_directory :: "jsstring option"
  up_command :: "jsstring option"
  up_setupCommands :: "jsstring list option"
  up_description :: "jsstring option"

text \<open>\<^verbatim>\<open>x || fallback\<close> on an optional string: absent and empty are both falsy.\<close>

definition or_else :: "jsstring option \<Rightarrow> jsstring \<Rightarrow> jsstring" where
  "or_else x fallback = (case x of None \<Rightarrow> fallback | Some v \<Rightarrow> if v = [] then fallback else v)"

text \<open>The path of a service directory, as \<^verbatim>\<open>addService\<close> and \<^verbatim>\<open>updateService\<close> build it.\<close>

definition servicePathOf :: "jsstring \<Rightarrow> jsstring \<Rightarrow> jsstring" where
  "servicePathOf projectName dir =
     (if startsWithSlash dir then dir
      else path_join [BASE_PATH, projectName, STRUCTURE_sites, dir])"

definition addService :: "env \<Rightarrow> jsstring \<Rightarrow> service_input \<Rightarrow> service prog" where
  "addService e projectName serviceConfig =
     (if \<not> validName (in_name serviceConfig) then throw InvalidServiceName
      else
        and_then (loadProjectConfig e projectName) (\<lambda>projectConfig.
        if list_ex (\<lambda>s. name s = in_name serviceConfig) (services projectConfig)
        then throw (ServiceExists (in_name serviceConfig))
        else
          let servicePath = servicePathOf projectName (in_directory serviceConfig) in
          and_then (existsSync e servicePath) (\<lambda>ex.
          and_then
            (if \<not> ex then
               and_then (fs_call e (MkDir servicePath) True) (\<lambda>_. logger INFO)
             else ret ()) (\<lambda>_.
          and_then (date_now e) (\<lambda>t.
          let service =
                \<lparr>name = in_name serviceConfig,
                 directory = servicePath,
                 setupCommands =
                   (case in_setupCommands serviceConfig of None \<Rightarrow> [] | Some cs \<Rightarrow> cs),
                 command = or_else (in_command serviceConfig) (js ''npm start''),
                 description = or_else (in_description serviceConfig) [],
                 pm2Name = projectName @ js ''-'' @ in_name serviceConfig,
                 createdAt = t,
                 updatedAt = None\<rparr>
          in
          and_then (saveProjectConfig e projectName
            (projectConfig\<lparr>services := services projectConfig @ [service]\<rparr>)) (\<lambda>_.
          and_then (logger SUCCESS) (\<lambda>_.
          ret service)))))))"

text \<open>\<^verbatim>\<open>Array.prototype.findIndex\<close>, \<open>None\<close> for -1.\<close>

fun findIndex :: "('a \<Rightarrow> bool) \<Rightarrow> 'a list \<Rightarrow> nat option" where
  "findIndex P [] = None"
| "findIndex P (x # xs) = (if P x then Some 0 else map_option Suc (findIndex P xs))"

definition updateService ::
  "env \<Rightarrow> jsstring \<Rightarrow> jsstring \<Rightarrow> service_updates \<Rightarrow> service prog" where
  "updateService e projectName serviceName updates =
     and_then (loadProjectConfig e projectName) (\<lambda>projectConfig.
     case findIndex (\<lambda>s. name s = serviceName) (services projectConfig) of
       None \<Rightarrow> throw (ServiceMissing serviceName)
     | Some serviceIndex \<Rightarrow>
         let service0 = services projectConfig ! serviceIndex;
             service1 =
               (case up_directory updates of
                  None \<Rightarrow> service0
                | Some d \<Rightarrow>
                    if d = [] then service0
                    else service0\<lparr>directory := servicePathOf projectName d\<rparr>);
             service2 =
               (case up_command updates of
                  None \<Rightarrow> service1
                | Some c \<Rightarrow> if c = [] then service1 else service1\<lparr>command := c\<rparr>);
             service3 =
               (case up_setupCommands updates of
                  None \<Rightarrow> service2
                | Some cs \<Rightarrow> service2\<lparr>setupCommands := cs\<rparr>);
             service4 =
               (case up_description updates of
                  None \<Rightarrow> service3
                | Some d \<Rightarrow> service3\<lparr>description := d\<rparr>)
         in
         and_then (date_now e) (\<lambda>t.
         let service = service4\<lparr>updatedAt := Some t\<rparr> in
         and_then (saveProjectConfig e projectName
           (projectConfig\<lparr>services := (services projectConfig)[serviceIndex := service]\<rparr>)) (\<lambda>_.
         and_then (logger SUCCESS) (\<lambda>_.
         ret service))))"

definition getService :: "env \<Rightarrow> jsstring \<Rightarrow> jsstring \<Rightarrow> service option prog" where
  "getService e projectName serviceName =
     and_then (loadProjectConfig e projectName) (\<lambda>projectConfig.
       ret (find (\<lambda>s. name s = serviceName) (services projectConfig)))"

definition listServices :: "env \<Rightarrow> jsstring \<Rightarrow> service list prog" where
  "listServices e projectName =
     and_then (loadProjectConfig e projectName) (\<lambda>projectConfig.
       ret (services projectConfig))"

text \<open>The loop of \<^verbatim>\<open>runSetupCommands\<close>: it stops at the first command that fails.\<close>

fun runSetupLoop :: "env \<Rightarrow> service \<Rightarrow> jsstring list \<Rightarrow> unit prog" where
  "runSetupLoop e service [] = ret ()"
| "runSetupLoop e service (cmd # cmds) =
     and_then (logger INFO) (\<lambda>_.
     and_then
       (try_catch
          (and_then (execCommand e cmd (Some (directory service))) (\<lambda>_. logger SUCCESS))
          (\<lambda>_. throw (SetupFailed cmd))) (\<lambda>_.
     runSetupLoop e service cmds))"

definition runSetupCommands :: "env \<Rightarrow> service \<Rightarrow> unit prog" where
  "runSetupCommands e service =
     (if setupCommands service = [] then ret ()
      else and_then (logger INFO) (\<lambda>_. runSetupLoop e service (setupCommands service)))"

text \<open>\<^verbatim>\<open>service.pm2Name || `${projectName}-${serviceName}`\<close>.\<close>

definition pm2NameOf :: "jsstring \<Rightarrow> jsstring \<Rightarrow> service \<Rightarrow> jsstring" where
  "pm2NameOf projectName serviceName service =
     (if pm2Name service \<noteq> [] then pm2Name service
      else projectName @ js ''-'' @ serviceName)"

definition startCommand :: "service \<Rightarrow> jsstring \<Rightarrow> jsstring" where
  "startCommand service pm2 =
     js ''start '' @ [34] @ command service @ [34] @ js '' --name '' @ [34] @ pm2 @ [34] @
     js '' --cwd '' @ [34] @ directory service @ [34]"

definition startService :: "env \<Rightarrow> jsstring \<Rightarrow> jsstring \<Rightarrow> bool \<Rightarrow> unit prog" where
  "startService e projectName serviceName runSetup =
     and_then (getService e projectName serviceName) (\<lambda>found.
     case found of
       None \<Rightarrow> throw (ServiceMissing serviceName)
     | Some service \<Rightarrow>
         and_then (existsSync e (directory service)) (\<lambda>ex.
         if \<not> ex then throw (ServiceDirMissing (directory service))
         else
           and_then (if runSetup then runSetupCommands e service else ret ()) (\<lambda>_.
           and_then (logger INFO) (\<lambda>_.
           let pm2 = pm2NameOf projectName serviceName service in
           try_catch
             (and_then (getPm2ProcessStatus e pm2) (\<lambda>status.
              and_then
                (case status of
                   Some _ \<Rightarrow> pm2Command e (js ''restart '' @ pm2)
                 | None \<Rightarrow> pm2Command e (startCommand service pm2)) (\<lambda>_.
              and_then (pm2Command e (js ''save'')) (\<lambda>_.
              logger SUCCESS))))
             (\<lambda>_. throw StartFailed)))))"

definition stopService :: "env \<Rightarrow> jsstring \<Rightarrow> jsstring \<Rightarrow> unit prog" where
  "stopService e projectName serviceName =
     and_then (getService e projectName serviceName) (\<lambda>found.
     case found of
       None \<Rightarrow> throw (ServiceMissing serviceName)
     | Some service \<Rightarrow>
         let pm2 = pm2NameOf projectName serviceName service in
         and_then (logger INFO) (\<lambda>_.
         try_catch
           (and_then (pm2Command e (js ''stop '' @ pm2)) (\<lambda>_.
            and_then (pm2Command e (js ''save'')) (\<lambda>_.
            logger SUCCESS)))
           (\<lambda>_. throw StopFailed)))"

definition restartService :: "env \<Rightarrow> jsstring \<Rightarrow> jsstring \<Rightarrow> unit prog" where
  "restartService e projectName serviceName =
     and_then (getService e projectName serviceName) (\<lambda>found.
     case found of
       None \<Rightarrow> throw (ServiceMissing serviceName)
     | Some service \<Rightarrow>
         let pm2 = pm2NameOf projectName serviceName service in
         and_then (logger INFO) (\<lambda>_.
         try_catch
           (and_then (pm2Command e (js ''restart '' @ pm2)) (\<lambda>_.
            and_then (pm2Command e (js ''save'')) (\<lambda>_.
            logger SUCCESS)))
           (\<lambda>_. throw RestartFailed)))"

text \<open>
  \<^verbatim>\<open>removeService\<close> deletes the process under the stored \<^verbatim>\<open>pm2Name\<close> itself
  (\<^verbatim>\<open>`delete ${service.pm2Name}`\<close>), without the fallback of \<open>pm2NameOf\<close>.
\<close>

definition removeService :: "env \<Rightarrow> jsstring \<Rightarrow> jsstring \<Rightarrow> unit prog" where
  "removeService e projectName serviceName =
     and_then (loadProjectConfig e projectName) (\<lambda>projectConfig.
     case findIndex (\<lambda>s. name s = serviceName) (services projectConfig) of
       None \<Rightarrow> throw (ServiceMissing serviceName)
     | Some serviceIndex \<Rightarrow>
         let service = services projectConfig ! serviceIndex in
         and_then (try_catch (stopService e projectName serviceName) (\<lambda>_. ret ())) (\<lambda>_.
         and_then (try_catch (pm2Command e (js ''delete '' @ pm2Name service)) (\<lambda>_. ret ())) (\<lambda>_.
         and_then (saveProjectConfig e projectName
           (projectConfig\<lparr>services :=
              take serviceIndex (services projectConfig) @
              drop (Suc serviceIndex) (services projectConfig)\<rparr>)) (\<lambda>_.
         logger SUCCESS))))"

text \<open>The loops of \<^verbatim>\<open>startAllServices\<close> and \<^verbatim>\<open>stopAllServices\<close>.\<close>

fun startAllLoop :: "env \<Rightarrow> jsstring \<Rightarrow> bool \<Rightarrow> service list \<Rightarrow> unit prog" where
  "startAllLoop e projectName runSetup [] = ret ()"
| "startAllLoop e projectName runSetup (s # ss) =
     and_then
       (try_catch (startService e projectName (name s) runSetup) (\<lambda>_. logger ERROR)) (\<lambda>_.
     startAllLoop e projectName runSetup ss)"

definition startAllServices :: "env \<Rightarrow> jsstring \<Rightarrow> bool \<Rightarrow> unit prog" where
  "startAllServices e projectName runSetup =
     and_then (listServices e projectName) (\<lambda>svcs.
       if svcs = [] then throw NoServices
       else
         and_then (logger INFO) (\<lambda>_.
         and_then (startAllLoop e projectName runSetup svcs) (\<lambda>_.
         logger SUCCESS)))"

fun stopAllLoop :: "env \<Rightarrow> jsstring \<Rightarrow> service list \<Rightarrow> unit prog" where
  "stopAllLoop e projectName [] = ret ()"
| "stopAllLoop e projectName (s # ss) =
     and_then
       (try_catch (stopService e projectName (name s)) (\<lambda>_. logger ERROR)) (\<lambda>_.
     stopAllLoop e projectName ss)"

definition stopAllServices :: "env \<Rightarrow> jsstring \<Rightarrow> unit prog" where
  "stopAllServices e projectName =
     and_then (listServices e projectName) (\<lambda>svcs.
       if svcs = [] then ret ()
       else
         and_then (logger INFO) (\<lambda>_.
         and_then (stopAllLoop e projectName svcs) (\<lambda>_.
         logger SUCCESS)))"

section \<open>Notions used to state the properties\<close>

text \<open>The number of positions of a text at which a marker starts.\<close>

fun occurrences :: "jsstring \<Rightarrow> jsstring \<Rightarrow> nat" where
  "occurrences m [] = (if m = [] then 1 else 0)"
| "occurrences m (c # s) = (if prefix m (c # s) then 1 else 0) + occurrences m s"

text \<open>
  A concrete setting for the examples: an environment in which every external call
  succeeds, every path exists and the supervisor lists no process; a host whose daemon
  configuration is one line and where the tool has never run; one registry entry.
\<close>

definition env_ok :: env where
  "env_ok = \<lparr>cmd_ok = (\<lambda>_ _ _. True), pm2_jlist = (\<lambda>_. Some []), fs_ok = (\<lambda>_ _. True),
             path_exists = (\<lambda>_ _. True), now = (\<lambda>_. 0)\<rparr>"

definition world0 :: world where
  "world0 = \<lparr>ssh_config = Some (js ''Port 22'' @ [10]), backups = [], registry = NoConfigDir,
             configs = (\<lambda>_. None), trace = [], logs = []\<rparr>"

definition demo :: project where
  "demo = \<lparr>p_name = js ''demo'', p_path = js ''/var/www/demo'',
           p_sftpUser = js ''sftp_demo'', p_createdAt = 0\<rparr>"

definition world_demo :: world where
  "world_demo = world0\<lparr>registry := RegistryFile (Doc (Some [demo]))\<rparr>"

text \<open>Environments in which exactly one command fails.\<close>

definition env_sshd_rejects :: env where
  "env_sshd_rejects = env_ok\<lparr>cmd_ok := (\<lambda>_ cmd _. cmd \<noteq> js ''sshd -t'')\<rparr>"

definition env_userdel_fails :: env where
  "env_userdel_fails = env_ok\<lparr>cmd_ok := (\<lambda>_ cmd _. cmd \<noteq> js ''userdel sftp_demo'')\<rparr>"

definition env_pkill_fails :: env where
  "env_pkill_fails = env_ok\<lparr>cmd_ok := (\<lambda>_ cmd _. cmd \<noteq> js ''pkill -u sftp_demo'')\<rparr>"

text \<open>An environment in which the process kill and the daemon's syntax check fail.\<close>

definition env_pkill_and_check_fail :: env where
  "env_pkill_and_check_fail =
     env_ok\<lparr>cmd_ok := (\<lambda>_ cmd _. cmd \<noteq> js ''pkill -u sftp_demo'' \<and> cmd \<noteq> js ''sshd -t'')\<rparr>"

text \<open>The path of the backup that \<^verbatim>\<open>writeSSHConfig\<close> makes when it starts in a world.\<close>

definition backupPathAt :: "env \<Rightarrow> world \<Rightarrow> jsstring" where
  "backupPathAt e w = SSH_CONFIG_PATH @ js ''.backup.'' @ decimal (now e (trace w))"

text \<open>Two worlds hold the same files.\<close>

definition same_files :: "world \<Rightarrow> world \<Rightarrow> bool" where
  "same_files w w' \<longleftrightarrow>
     ssh_config w' = ssh_config w \<and> backups w' = backups w \<and>
     registry w' = registry w \<and> configs w' = configs w"

text \<open>
  The process names for which a trace holds a \<^verbatim>\<open>pm2 stop\<close> command, in the order
  of the commands, whether they succeeded or not.
\<close>

fun stopAttempts :: "event list \<Rightarrow> jsstring list" where
  "stopAttempts [] = []"
| "stopAttempts (Exec cmd cwd ok # evs) =
     (if prefix (js ''pm2 stop '') cmd then drop 9 cmd # stopAttempts evs else stopAttempts evs)"
| "stopAttempts (Fs op ok # evs) = stopAttempts evs"

text \<open>The path of a project's own document.\<close>

definition configPathOf :: "jsstring \<Rightarrow> jsstring" where
  "configPathOf projectName = path_join [BASE_PATH, projectName, STRUCTURE_config]"

text \<open>
  The process name that \<^verbatim>\<open>stopService\<close> resolves for a declared service: it looks
  the service up by name, and so finds the first declared service with that name.
\<close>

definition resolvedPm2Names :: "jsstring \<Rightarrow> service list \<Rightarrow> service \<Rightarrow> jsstring list" where
  "resolvedPm2Names projectName declared s =
     (case find (\<lambda>x. name x = name s) declared of
        None \<Rightarrow> []
      | Some x \<Rightarrow> [pm2NameOf projectName (name s) x])"

text \<open>A project with three services, and an environment where stopping the second fails.\<close>

definition three_services :: project_config where
  "three_services =
     \<lparr>c_name = js ''demo'', c_path = Some (js ''/var/www/demo''),
      c_sftpUser = Some (js ''sftp_demo''),
      services =
        [\<lparr>name = js ''api'', directory = js ''/var/www/demo/sites/api'', setupCommands = [],
          command = js ''npm start'', description = [], pm2Name = js ''demo-api'',
          createdAt = 0, updatedAt = None\<rparr>,
         \<lparr>name = js ''web'', directory = js ''/var/www/demo/sites/web'', setupCommands = [],
          command = js ''npm start'', description = [], pm2Name = js ''demo-web'',
          createdAt = 0, updatedAt = None\<rparr>,
         \<lparr>name = js ''jobs'', directory = js ''/var/www/demo/sites/jobs'', setupCommands = [],
          command = js ''npm start'', description = [], pm2Name = js ''demo-jobs'',
          createdAt = 0, updatedAt = None\<rparr>],
      c_createdAt = 0, c_updatedAt = None\<rparr>"

definition world_three :: world where
  "world_three = world_demo\<lparr>configs := (\<lambda>_. None)(js ''/var/www/demo/project.json'' := Some (Doc three_services))\<rparr>"

definition env_second_stop_fails :: env where
  "env_second_stop_fails = env_ok\<lparr>cmd_ok := (\<lambda>_ cmd _. cmd \<noteq> js ''pm2 stop demo-web'')\<rparr>"

text \<open>
  What \<^verbatim>\<open>getPm2ProcessStatus\<close> finds in a world: the supervisor's list is obtained,
  parses, and holds an entry with the name.
\<close>

definition processListed :: "env \<Rightarrow> world \<Rightarrow> jsstring \<Rightarrow> bool" where
  "processListed e w pm2 =
     (cmd_ok e (trace w) (js ''pm2 jlist'') None \<and>
      (case pm2_jlist e (trace w @ [Exec (js ''pm2 jlist'') None True]) of
         None \<Rightarrow> False
       | Some processes \<Rightarrow> pm2 \<in> set processes))"

text \<open>
  An environment where the supervisor lists \<open>demo-api\<close> and restarting it fails.
\<close>

definition env_restart_fails :: env where
  "env_restart_fails =
     env_ok\<lparr>cmd_ok := (\<lambda>_ cmd _. cmd \<noteq> js ''pm2 restart demo-api''),
            pm2_jlist := (\<lambda>_. Some [js ''demo-api''])\<rparr>"

text \<open>
  A path made of plain segments only: split at \<open>/\<close>, no segment is empty, \<open>.\<close> or
  \<open>..\<close>. Such a path is not empty and neither starts nor ends with \<open>/\<close>.
\<close>

definition plainRelative :: "jsstring \<Rightarrow> bool" where
  "plainRelative p = list_all (\<lambda>seg. seg \<noteq> [] \<and> seg \<noteq> [46] \<and> seg \<noteq> [46, 46]) (split_on 47 p)"

text \<open>
  The service of the specification's scenario, and the same service declared with a
  directory that leaves \<^verbatim>\<open>sites\<close>.
\<close>

definition api_input :: service_input where
  "api_input = \<lparr>in_name = js ''api'', in_directory = js ''api'',
                 in_command = Some (js ''node server.js''), in_description = None,
                 in_setupCommands = Some [js ''npm install'']\<rparr>"

definition shared_input :: service_input where
  "shared_input = api_input\<lparr>in_directory := js ''../shared''\<rparr>"

text \<open>
  Two projects, \<open>a-b\<close> and \<open>a\<close>, with the services \<open>c\<close> and \<open>b-c\<close>; the
  world after both services have been added; an environment in which the supervisor
  lists a process named \<open>a-b-c\<close>; and an update of a service's command.
\<close>

definition c_input :: service_input where
  "c_input = \<lparr>in_name = js ''c'', in_directory = js ''c'', in_command = None,
               in_description = None, in_setupCommands = None\<rparr>"

definition bc_input :: service_input where
  "bc_input = \<lparr>in_name = js ''b-c'', in_directory = js ''b-c'', in_command = None,
                in_description = None, in_setupCommands = None\<rparr>"

definition new_command :: service_updates where
  "new_command = \<lparr>up_directory = None, up_command = Some (js ''node web.js''),
                   up_setupCommands = None, up_description = None\<rparr>"

definition env_abc_running :: env where
  "env_abc_running = env_ok\<lparr>pm2_jlist := (\<lambda>_. Some [js ''a-b-c''])\<rparr>"

definition world_two_projects :: world where
  "world_two_projects =
     snd (addService env_ok (js ''a'') bc_input
       (snd (addService env_ok (js ''a-b'') c_input world0)))"

text \<open>
  A daemon configuration that already holds a block of the tool between two lines of its
  own, and the three parts of it around the two markers.
\<close>

definition fence_body :: jsstring where
  "fence_body =
     [10] @ js ''# Configuration g'' @ [233] @ js ''n'' @ [233] @ js ''r'' @ [233] @
     js ''e automatiquement - Ne pas modifier manuellement'' @ [10, 10] @
     js ''Match Group sftpusers'' @ [10] @
     js ''    ChrootDirectory %h'' @ [10] @
     js ''    ForceCommand internal-sftp'' @ [10] @
     js ''    AllowTcpForwarding no'' @ [10] @
     js ''    X11Forwarding no'' @ [10] @
     js ''    PasswordAuthentication yes'' @ [10] @
     [10]"

definition fenced_config :: jsstring where
  "fenced_config =
     (js ''Port 22'' @ [10]) @ SFTP_CONFIG_MARKER @ fence_body @ SFTP_CONFIG_END_MARKER @
     ([10] @ js ''UseDNS no'' @ [10])"

text \<open>
  The registry lists only names that match the name pattern. This is the data model of
  the registry: the tool writes it in \<^verbatim>\<open>createProject\<close>, after the pattern test, and
  in \<^verbatim>\<open>deleteProject\<close>, which only removes an entry.
\<close>

definition registryNamesValid :: "world \<Rightarrow> bool" where
  "registryNamesValid w =
     (case registry w of
        RegistryFile (Doc (Some projects)) \<Rightarrow> list_all (\<lambda>p. validName (p_name p)) projects
      | _ \<Rightarrow> True)"

text \<open>A computation keeps a property of the world, whatever it returns.\<close>

definition keeps :: "(world \<Rightarrow> bool) \<Rightarrow> 'a prog \<Rightarrow> bool" where
  "keeps I m = (\<forall>w. I w \<longrightarrow> I (snd (m w)))"

text \<open>
  What the setup of a service adds to a trace \<open>h\<close>: its commands in order, each run
  in the service directory, up to and including the first one that fails. And the first
  command that fails, if there is one.
\<close>

fun setupEvents :: "env \<Rightarrow> event list \<Rightarrow> jsstring \<Rightarrow> jsstring list \<Rightarrow> event list" where
  "setupEvents e h dir [] = []"
| "setupEvents e h dir (cmd # cmds) =
     (if cmd_ok e h cmd (Some dir)
      then Exec cmd (Some dir) True # setupEvents e (h @ [Exec cmd (Some dir) True]) dir cmds
      else [Exec cmd (Some dir) False])"

fun setupFailure :: "env \<Rightarrow> event list \<Rightarrow> jsstring \<Rightarrow> jsstring list \<Rightarrow> jsstring option" where
  "setupFailure e h dir [] = None"
| "setupFailure e h dir (cmd # cmds) =
     (if cmd_ok e h cmd (Some dir)
      then setupFailure e (h @ [Exec cmd (Some dir) True]) dir cmds
      else Some cmd)"

text \<open>
  The scenario of the specification: project \<open>shop\<close> with the service \<open>api\<close>, whose
  command is \<^verbatim>\<open>node server.js\<close>; it has two setup commands here. And an environment
  in which the second setup command fails.
\<close>

definition shop_config :: project_config where
  "shop_config =
     \<lparr>c_name = js ''shop'', c_path = Some (js ''/var/www/shop''),
      c_sftpUser = Some (js ''sftp_shop''),
      services =
        [\<lparr>name = js ''api'', directory = js ''/var/www/shop/sites/api'',
          setupCommands = [js ''npm install'', js ''npm run build''],
          command = js ''node server.js'', description = [], pm2Name = js ''shop-api'',
          createdAt = 0, updatedAt = None\<rparr>],
      c_createdAt = 0, c_updatedAt = None\<rparr>"

definition world_shop :: world where
  "world_shop = world0\<lparr>configs := (\<lambda>_. None)(js ''/var/www/shop/project.json'' := Some (Doc shop_config))\<rparr>"

definition env_build_fails :: env where
  "env_build_fails = env_ok\<lparr>cmd_ok := (\<lambda>_ cmd _. cmd \<noteq> js ''npm run build'')\<rparr>"

section \<open>Unfolding the model\<close>

lemmas prog_defs = and_then_def try_catch_def ret_def throw_def get_world_def modify_def logger_def

lemmas shell_defs = execCommand_def execSyncSafe_def fs_call_def date_now_def existsSync_def
  testSSHConfig_def restartSSH_def pm2Command_def userExists_def groupExists_def

lemmas marker_defs = SFTP_CONFIG_MARKER_def SFTP_CONFIG_END_MARKER_def SFTP_GROUP_def js_def

section \<open>The fence of the SSH daemon configuration\<close>

lemma occurrences_generated_start:
  "projects \<noteq> [] \<Longrightarrow> occurrences SFTP_CONFIG_MARKER (generateSftpConfig projects) = 1"
  by (simp add: generateSftpConfig_def marker_defs)

lemma occurrences_generated_end:
  "projects \<noteq> [] \<Longrightarrow> occurrences SFTP_CONFIG_END_MARKER (generateSftpConfig projects) = 1"
  by (simp add: generateSftpConfig_def marker_defs)

lemma prefix_append_sep:
  assumes "c \<notin> set m"
  shows "prefix m (a @ c # b) \<longleftrightarrow> prefix m a"
proof
  assume "prefix m (a @ c # b)"
  then obtain r where r: "a @ c # b = m @ r" by (auto simp: prefix_def)
  show "prefix m a"
  proof (cases "length m \<le> length a")
    case True
    with r have "m = take (length m) a"
      by (metis append_eq_conv_conj take_append diff_is_0_eq take_0 append_Nil2 take_all_iff le_refl)
    then show ?thesis by (metis take_is_prefix)
  next
    case False
    then have "length a < length m" by simp
    with r have "m ! length a = c"
      by (metis nth_append nth_append_length)
    with \<open>length a < length m\<close> have "c \<in> set m" by (metis nth_mem)
    with assms show ?thesis by simp
  qed
next
  assume "prefix m a"
  then show "prefix m (a @ c # b)" by (simp add: prefix_prefix)
qed

lemma occurrences_append_sep:
  assumes "c \<notin> set m" "m \<noteq> []"
  shows "occurrences m (a @ c # b) = occurrences m a + occurrences m b"
proof (induction a)
  case Nil
  from assms have "\<not> prefix m (c # b)"
    by (cases m) auto
  with assms show ?case by simp
next
  case (Cons x a)
  have "prefix m ((x # a) @ c # b) \<longleftrightarrow> prefix m (x # a)"
    using assms(1) by (rule prefix_append_sep)
  with Cons show ?case by simp
qed

lemma occurrences_append_zero:
  "m \<noteq> [] \<Longrightarrow> occurrences m (a @ b) = 0 \<Longrightarrow> occurrences m a = 0"
proof (induction a)
  case Nil
  then show ?case by simp
next
  case (Cons x a)
  have "prefix m (x # a) \<Longrightarrow> prefix m (x # a @ b)"
    using prefix_prefix [of m "x # a" b] by simp
  with Cons show ?case by (auto split: if_splits)
qed

lemma trimEnd_prefix: "prefix (trimEnd s) s"
proof -
  have "rev s = takeWhile isWhiteSpace (rev s) @ dropWhile isWhiteSpace (rev s)" by simp
  then have "s = rev (dropWhile isWhiteSpace (rev s)) @ rev (takeWhile isWhiteSpace (rev s))"
    by (metis rev_append rev_rev_ident)
  then show ?thesis unfolding trimEnd_def by (metis prefixI)
qed

lemma occurrences_trimEnd_zero:
  assumes "m \<noteq> []" "occurrences m s = 0"
  shows "occurrences m (trimEnd s) = 0"
proof -
  obtain r where "s = trimEnd s @ r" using trimEnd_prefix by (auto simp: prefix_def)
  with assms show ?thesis by (metis occurrences_append_zero)
qed

lemma occurrences_newSSHConfig:
  assumes "m \<noteq> []" "10 \<notin> set m" "occurrences m (removeOldConfig old) = 0"
  shows "occurrences m (newSSHConfig projects old) =
         (if projects = [] then 0 else occurrences m (generateSftpConfig projects))"
proof (cases "projects = []")
  case True
  with assms show ?thesis
    by (simp add: newSSHConfig_def generateSftpConfig_def occurrences_trimEnd_zero)
next
  case False
  then obtain rest where g: "generateSftpConfig projects = 10 # rest"
    by (simp add: generateSftpConfig_def)
  have t: "occurrences m (trimEnd (removeOldConfig old)) = 0"
    using assms by (simp add: occurrences_trimEnd_zero)
  have "occurrences m (10 # rest) = occurrences m ([] @ 10 # rest)" by simp
  also have "\<dots> = occurrences m [] + occurrences m rest"
    using assms by (rule_tac occurrences_append_sep) auto
  finally have r: "occurrences m (10 # rest) = occurrences m rest" using assms by simp
  have "occurrences m (newSSHConfig projects old)
        = occurrences m (trimEnd (removeOldConfig old)) + occurrences m rest"
    unfolding newSSHConfig_def g using assms by (simp add: occurrences_append_sep)
  with t r g False show ?thesis by simp
qed

lemma updateSSHConfig_written:
  assumes "updateSSHConfig e projects w = (Inr (), w')" "ssh_config w = Some old"
  shows "ssh_config w' = Some (newSSHConfig projects old)"
  using assms
  by (auto simp: updateSSHConfig_def readSSHConfig_def writeSSHConfig_def prog_defs shell_defs Let_def
      split: if_splits option.splits sum.splits prod.splits)


lemma updateSSHConfig_env_ok:
  "updateSSHConfig env_ok projects (world0\<lparr>ssh_config := Some old\<rparr>) =
     (Inr (),
      \<lparr>ssh_config = Some (newSSHConfig projects old),
       backups = [(SSH_CONFIG_PATH @ js ''.backup.'' @ decimal 0, old)],
       registry = NoConfigDir, configs = (\<lambda>_. None),
       trace = [Fs (CopyFile SSH_CONFIG_PATH (SSH_CONFIG_PATH @ js ''.backup.'' @ decimal 0)) True,
                Fs (WriteFile SSH_CONFIG_PATH) True,
                Exec (js ''sshd -t'') None True,
                Exec (js ''systemctl restart sshd'') None True],
       logs = [INFO, DEBUG, DEBUG, DEBUG, SUCCESS, SUCCESS]\<rparr>)"
  by (simp add: updateSSHConfig_def readSSHConfig_def writeSSHConfig_def prog_defs shell_defs
      env_ok_def world0_def Let_def)

lemma updateSSHConfig_world0:
  "updateSSHConfig env_ok projects world0 =
     (Inr (),
      \<lparr>ssh_config = Some (newSSHConfig projects (js ''Port 22'' @ [10])),
       backups = [(SSH_CONFIG_PATH @ js ''.backup.'' @ decimal 0, js ''Port 22'' @ [10])],
       registry = NoConfigDir, configs = (\<lambda>_. None),
       trace = [Fs (CopyFile SSH_CONFIG_PATH (SSH_CONFIG_PATH @ js ''.backup.'' @ decimal 0)) True,
                Fs (WriteFile SSH_CONFIG_PATH) True,
                Exec (js ''sshd -t'') None True,
                Exec (js ''systemctl restart sshd'') None True],
       logs = [INFO, DEBUG, DEBUG, DEBUG, SUCCESS, SUCCESS]\<rparr>)"
  by (simp add: updateSSHConfig_def readSSHConfig_def writeSSHConfig_def prog_defs shell_defs
      env_ok_def world0_def Let_def)

lemma indexOf_None_iff: "m \<noteq> [] \<Longrightarrow> indexOf s m = None \<longleftrightarrow> occurrences m s = 0"
  by (induction s) auto

lemma removeOldConfig_without_markers:
  assumes "occurrences SFTP_CONFIG_MARKER old = 0 \<or> occurrences SFTP_CONFIG_END_MARKER old = 0"
  shows "removeOldConfig old = old"
proof -
  have "SFTP_CONFIG_MARKER \<noteq> []" "SFTP_CONFIG_END_MARKER \<noteq> []"
    by (simp_all add: marker_defs)
  with assms have "indexOf old SFTP_CONFIG_MARKER = None \<or> indexOf old SFTP_CONFIG_END_MARKER = None"
    by (simp add: indexOf_None_iff)
  then show ?thesis by (auto simp: removeOldConfig_def split: option.splits)
qed

text \<open>
  A marker whose first code unit occurs nowhere else in it cannot overlap a copy of
  itself. So in a text \<open>x @ m @ r\<close> where \<open>m\<close> does not occur in \<open>x\<close>, the first
  occurrence of \<open>m\<close> is the one after \<open>x\<close>. Both markers are of this kind: \<open>#\<close>
  is their first code unit only.
\<close>

lemma prefix_no_straddle:
  assumes "m \<noteq> []" "hd m \<notin> set (tl m)" "u \<noteq> []" "prefix m (u @ m @ r)"
  shows "prefix m u"
proof (cases "length m \<le> length u")
  case True
  from assms(4) obtain t where t: "u @ m @ r = m @ t" by (auto simp: prefix_def)
  with True have "m = take (length m) u"
    by (metis append_eq_conv_conj take_append diff_is_0_eq take_0 append_Nil2)
  then show ?thesis by (metis take_is_prefix)
next
  case False
  then have l: "length u < length m" by simp
  from assms(4) obtain t where t: "u @ m @ r = m @ t" by (auto simp: prefix_def)
  have "(u @ m @ r) ! length u = hd m"
    using assms(1) by (simp add: nth_append hd_conv_nth)
  moreover have "(m @ t) ! length u = m ! length u"
    using l by (simp add: nth_append)
  ultimately have "m ! length u = hd m" using t by simp
  moreover have "0 < length u" using assms(3) by simp
  ultimately have "hd m \<in> set (tl m)"
    using l by (metis Suc_pred in_set_conv_nth length_tl less_diff_conv nth_tl Suc_eq_plus1)
  with assms(2) show ?thesis by simp
qed

lemma indexOf_first:
  assumes "m \<noteq> []" "hd m \<notin> set (tl m)" "occurrences m x = 0"
  shows "indexOf (x @ m @ r) m = Some (length x)"
  using assms(3)
proof (induction x)
  case Nil
  from assms(1) obtain c t where "m @ r = c # t" by (cases m) auto
  then show ?case by (metis append_Nil indexOf.simps(2) list.size(3) prefixI)
next
  case (Cons y x)
  then have n: "\<not> prefix m (y # x)" and z: "occurrences m x = 0"
    by (auto split: if_splits)
  have "\<not> prefix m ((y # x) @ m @ r)"
    using prefix_no_straddle [OF assms(1,2), of "y # x" r] n by auto
  with Cons.IH [OF z] show ?case by simp
qed

lemma markers_no_overlap:
  "SFTP_CONFIG_MARKER \<noteq> []" "hd SFTP_CONFIG_MARKER \<notin> set (tl SFTP_CONFIG_MARKER)"
  "SFTP_CONFIG_END_MARKER \<noteq> []" "hd SFTP_CONFIG_END_MARKER \<notin> set (tl SFTP_CONFIG_END_MARKER)"
  by (simp_all add: marker_defs)

text \<open>
  The cut of \<^verbatim>\<open>updateSSHConfig\<close> on a text with a block: when the text is \<open>a\<close>, the
  start marker, \<open>b\<close>, the end marker and \<open>c\<close>, with no start marker in \<open>a\<close> and no
  end marker before the one named, what is left is \<open>a @ c\<close>.
\<close>

lemma removeOldConfig_fenced:
  assumes "occurrences SFTP_CONFIG_MARKER a = 0"
    and "occurrences SFTP_CONFIG_END_MARKER (a @ SFTP_CONFIG_MARKER @ b) = 0"
  shows "removeOldConfig (a @ SFTP_CONFIG_MARKER @ b @ SFTP_CONFIG_END_MARKER @ c) = a @ c"
proof -
  let ?old = "a @ SFTP_CONFIG_MARKER @ b @ SFTP_CONFIG_END_MARKER @ c"
  have i: "indexOf ?old SFTP_CONFIG_MARKER = Some (length a)"
    using indexOf_first [OF markers_no_overlap(1,2) assms(1)] .
  have "indexOf ((a @ SFTP_CONFIG_MARKER @ b) @ SFTP_CONFIG_END_MARKER @ c) SFTP_CONFIG_END_MARKER =
      Some (length (a @ SFTP_CONFIG_MARKER @ b))"
    using indexOf_first [OF markers_no_overlap(3,4) assms(2)] .
  then have j: "indexOf ?old SFTP_CONFIG_END_MARKER =
      Some (length a + length SFTP_CONFIG_MARKER + length b)"
    by (simp add: add.assoc)
  have "drop (length a + length SFTP_CONFIG_MARKER + length b + length SFTP_CONFIG_END_MARKER) ?old = c"
    by simp
  then show ?thesis
    unfolding removeOldConfig_def i j by simp
qed

text \<open>
  Claim C1, as amended. The prior content is either a text without its own block
  (\<open>rest\<close> is the prior content itself), or a text \<open>a\<close>, the start marker, a text
  \<open>b\<close>, the first end marker and a text \<open>c\<close> (\<open>rest\<close> is \<open>a\<close> followed by
  \<open>c\<close>); and \<open>rest\<close> holds no marker. Then, whatever the environment and the project
  list, a successful \<^verbatim>\<open>updateSSHConfig\<close> leaves the file with \<open>rest\<close>, trimmed at
  its end, followed by the newly generated block: the old block, markers included, is
  gone, and the file has exactly one start marker and exactly one end marker if the
  project list is not empty, and no marker at all if the list is empty (no block is
  appended then).
\<close>

theorem updateSSHConfig_single_fence:
  assumes run: "updateSSHConfig e projects w = (Inr (), w')"
    and prior: "ssh_config w = Some old"
    and fence: "old = rest \<or>
       old = a @ SFTP_CONFIG_MARKER @ b @ SFTP_CONFIG_END_MARKER @ c \<and>
       occurrences SFTP_CONFIG_END_MARKER (a @ SFTP_CONFIG_MARKER @ b) = 0 \<and>
       rest = a @ c"
    and clean: "occurrences SFTP_CONFIG_MARKER rest = 0"
       "occurrences SFTP_CONFIG_END_MARKER rest = 0"
  shows "ssh_config w' = Some (trimEnd rest @ generateSftpConfig projects) \<and>
         occurrences SFTP_CONFIG_MARKER (trimEnd rest @ generateSftpConfig projects) =
           (if projects = [] then 0 else 1) \<and>
         occurrences SFTP_CONFIG_END_MARKER (trimEnd rest @ generateSftpConfig projects) =
           (if projects = [] then 0 else 1)"
proof -
  have s: "SFTP_CONFIG_MARKER \<noteq> []" "10 \<notin> set SFTP_CONFIG_MARKER"
    by (simp_all add: marker_defs)
  have t: "SFTP_CONFIG_END_MARKER \<noteq> []" "10 \<notin> set SFTP_CONFIG_END_MARKER"
    by (simp_all add: marker_defs)
  have cut: "removeOldConfig old = rest"
    using fence
  proof
    assume "old = rest"
    with clean show ?thesis by (simp add: removeOldConfig_without_markers)
  next
    assume f: "old = a @ SFTP_CONFIG_MARKER @ b @ SFTP_CONFIG_END_MARKER @ c \<and>
       occurrences SFTP_CONFIG_END_MARKER (a @ SFTP_CONFIG_MARKER @ b) = 0 \<and>
       rest = a @ c"
    with clean(1) have "occurrences SFTP_CONFIG_MARKER a = 0"
      using occurrences_append_zero [OF s(1), of a c] by simp
    with f show ?thesis by (simp add: removeOldConfig_fenced)
  qed
  then have new: "newSSHConfig projects old = trimEnd rest @ generateSftpConfig projects"
    by (simp add: newSSHConfig_def)
  have "ssh_config w' = Some (newSSHConfig projects old)"
    using run prior by (rule updateSSHConfig_written)
  moreover have "occurrences SFTP_CONFIG_MARKER (newSSHConfig projects old) =
      (if projects = [] then 0 else 1)"
    using occurrences_newSSHConfig [OF s, of old projects] clean(1) cut
    by (simp add: occurrences_generated_start)
  moreover have "occurrences SFTP_CONFIG_END_MARKER (newSSHConfig projects old) =
      (if projects = [] then 0 else 1)"
    using occurrences_newSSHConfig [OF t, of old projects] clean(2) cut
    by (simp add: occurrences_generated_end)
  ultimately show ?thesis by (simp add: new)
qed

theorem updateSSHConfig_single_fence_witness:
  "ssh_config (snd (updateSSHConfig env_ok [demo] (world0\<lparr>ssh_config := Some fenced_config\<rparr>))) =
     Some (js ''Port 22'' @ [10, 10] @ js ''UseDNS no'' @ generateSftpConfig [demo]) \<and>
   occurrences SFTP_CONFIG_MARKER
     (js ''Port 22'' @ [10, 10] @ js ''UseDNS no'' @ generateSftpConfig [demo]) = 1 \<and>
   occurrences SFTP_CONFIG_END_MARKER
     (js ''Port 22'' @ [10, 10] @ js ''UseDNS no'' @ generateSftpConfig [demo]) = 1"
proof -
  let ?a = "js ''Port 22'' @ [10]"
  let ?c = "[10] @ js ''UseDNS no'' @ [10]"
  have run: "updateSSHConfig env_ok [demo] (world0\<lparr>ssh_config := Some fenced_config\<rparr>) =
      (Inr (), snd (updateSSHConfig env_ok [demo] (world0\<lparr>ssh_config := Some fenced_config\<rparr>)))"
    by (simp add: updateSSHConfig_env_ok)
  have prior: "ssh_config (world0\<lparr>ssh_config := Some fenced_config\<rparr>) = Some fenced_config"
    by simp
  have fence: "fenced_config = ?a @ ?c \<or>
       fenced_config = ?a @ SFTP_CONFIG_MARKER @ fence_body @ SFTP_CONFIG_END_MARKER @ ?c \<and>
       occurrences SFTP_CONFIG_END_MARKER (?a @ SFTP_CONFIG_MARKER @ fence_body) = 0 \<and>
       ?a @ ?c = ?a @ ?c"
    by (simp add: fenced_config_def fence_body_def marker_defs)
  have clean: "occurrences SFTP_CONFIG_MARKER (?a @ ?c) = 0"
      "occurrences SFTP_CONFIG_END_MARKER (?a @ ?c) = 0"
    by (simp_all add: marker_defs)
  have trim: "trimEnd (?a @ ?c) = js ''Port 22'' @ [10, 10] @ js ''UseDNS no''"
    by (simp add: trimEnd_def isWhiteSpace_def js_def)
  from updateSSHConfig_single_fence [OF run prior fence clean]
  show ?thesis unfolding trim by simp
qed

theorem updateSSHConfig_fence_counterexample:
  "fst (updateSSHConfig env_ok [] world0) = Inr () \<and>
   ssh_config (snd (updateSSHConfig env_ok [] world0)) = Some (js ''Port 22'') \<and>
   occurrences SFTP_CONFIG_MARKER (js ''Port 22'') = 0 \<and>
   occurrences SFTP_CONFIG_END_MARKER (js ''Port 22'') = 0 \<and>
   fst (updateSSHConfig env_ok [demo]
     (world0\<lparr>ssh_config := Some (js ''Port 22'' @ [10] @ SFTP_CONFIG_MARKER @ [10])\<rparr>)) = Inr () \<and>
   map_option (occurrences SFTP_CONFIG_MARKER)
     (ssh_config (snd (updateSSHConfig env_ok [demo]
        (world0\<lparr>ssh_config := Some (js ''Port 22'' @ [10] @ SFTP_CONFIG_MARKER @ [10])\<rparr>)))) =
     Some 2"
proof -
  have "fst (updateSSHConfig env_ok [] world0) = Inr () \<and>
   ssh_config (snd (updateSSHConfig env_ok [] world0)) = Some (js ''Port 22'') \<and>
   occurrences SFTP_CONFIG_MARKER (js ''Port 22'') = 0 \<and>
   occurrences SFTP_CONFIG_END_MARKER (js ''Port 22'') = 0"
    by (simp add: updateSSHConfig_world0 newSSHConfig_def removeOldConfig_def
        generateSftpConfig_def trimEnd_def isWhiteSpace_def marker_defs)
  moreover have "occurrences SFTP_CONFIG_MARKER
      (newSSHConfig [demo] (js ''Port 22'' @ [10] @ SFTP_CONFIG_MARKER @ [10])) = 2"
    by (simp add: newSSHConfig_def removeOldConfig_def generateSftpConfig_def trimEnd_def
        isWhiteSpace_def marker_defs)
  ultimately show ?thesis by (simp add: updateSSHConfig_env_ok)
qed

lemma occurrences_at_least_one: "1 \<le> occurrences m (a @ m @ r)"
proof (induction a)
  case Nil
  show ?case
  proof (cases "m @ r")
    case Nil
    then show ?thesis by simp
  next
    case (Cons c t)
    have "prefix m (m @ r)" by simp
    then show ?thesis unfolding Cons append_Nil by simp
  qed
next
  case (Cons x a)
  then show ?case by simp
qed

lemma occurrences_whitespace_tail:
  assumes "m \<noteq> []" "last m \<notin> set ws"
  shows "occurrences m (t @ ws) = occurrences m t"
proof (induction t)
  case Nil
  have "occurrences m ws' = 0" if "set ws' \<subseteq> set ws" for ws'
    using that
  proof (induction ws')
    case Nil
    with assms show ?case by simp
  next
    case (Cons c ws')
    have "\<not> prefix m (c # ws')"
    proof
      assume "prefix m (c # ws')"
      then have "set m \<subseteq> set (c # ws')" by (rule set_mono_prefix)
      with assms(1) have "last m \<in> set (c # ws')" by (meson last_in_set subsetD)
      with Cons.prems assms(2) show False by auto
    qed
    with Cons show ?case by simp
  qed
  from this [of ws] assms show ?case by simp
next
  case (Cons x t)
  have "prefix m (x # t @ ws) \<longleftrightarrow> prefix m (x # t)"
  proof
    assume "prefix m (x # t @ ws)"
    then have "prefix m ((x # t) @ ws)" by simp
    then consider "prefix m (x # t)" | us where "m = (x # t) @ us" "prefix us ws"
      unfolding prefix_append by blast
    then show "prefix m (x # t)"
    proof cases
      case 1
      then show ?thesis .
    next
      case 2
      show ?thesis
      proof (cases "us = []")
        case True
        with 2 show ?thesis by simp
      next
        case False
        with 2 have "last m = last us" by simp
        moreover from False have "last us \<in> set us" by simp
        moreover from 2 have "set us \<subseteq> set ws" by (simp add: set_mono_prefix)
        ultimately show ?thesis using assms(2) by auto
      qed
    qed
  next
    assume "prefix m (x # t)"
    then show "prefix m (x # t @ ws)" using prefix_prefix [of m "x # t" ws] by simp
  qed
  with Cons show ?case by simp
qed

lemma trimEnd_tail: "\<exists>ws. s = trimEnd s @ ws \<and> (\<forall>c \<in> set ws. isWhiteSpace c)"
proof -
  have "rev s = takeWhile isWhiteSpace (rev s) @ dropWhile isWhiteSpace (rev s)" by simp
  then have "s = rev (dropWhile isWhiteSpace (rev s)) @ rev (takeWhile isWhiteSpace (rev s))"
    by (metis rev_append rev_rev_ident)
  moreover have "\<forall>c \<in> set (rev (takeWhile isWhiteSpace (rev s))). isWhiteSpace c"
    by (auto dest: set_takeWhileD)
  ultimately show ?thesis unfolding trimEnd_def by blast
qed

lemma occurrences_trimEnd:
  assumes "m \<noteq> []" "\<not> isWhiteSpace (last m)"
  shows "occurrences m (trimEnd s) = occurrences m s"
proof -
  obtain ws where ws: "s = trimEnd s @ ws" "\<forall>c \<in> set ws. isWhiteSpace c"
    using trimEnd_tail by blast
  with assms(2) have "last m \<notin> set ws" by auto
  from occurrences_whitespace_tail [OF assms(1) this, of "trimEnd s"] ws(1) show ?thesis by simp
qed

lemma occurrences_newSSHConfig_sum:
  assumes "m \<noteq> []" "10 \<notin> set m" "\<not> isWhiteSpace (last m)" "projects \<noteq> []"
  shows "occurrences m (newSSHConfig projects old) =
         occurrences m (removeOldConfig old) + occurrences m (generateSftpConfig projects)"
proof -
  from assms(4) obtain block where g: "generateSftpConfig projects = 10 # block"
    by (simp add: generateSftpConfig_def)
  have "occurrences m (10 # block) = occurrences m ([] @ 10 # block)" by simp
  also have "\<dots> = occurrences m [] + occurrences m block"
    using assms by (rule_tac occurrences_append_sep) auto
  finally have r: "occurrences m (10 # block) = occurrences m block" using assms by simp
  have "occurrences m (newSSHConfig projects old)
        = occurrences m (trimEnd (removeOldConfig old)) + occurrences m block"
    unfolding newSSHConfig_def g using assms by (simp add: occurrences_append_sep)
  with r g assms show ?thesis by (simp add: occurrences_trimEnd)
qed

lemma indexOf_Some_split:
  assumes "m \<noteq> []" "indexOf s m = Some j"
  shows "\<exists>a r. s = a @ m @ r \<and> length a = j \<and> occurrences m a = 0"
  using assms(2)
proof (induction s arbitrary: j)
  case Nil
  with assms(1) show ?case by simp
next
  case (Cons c s)
  show ?case
  proof (cases "prefix m (c # s)")
    case True
    with Cons.prems have "j = 0" by simp
    moreover from True obtain r where "c # s = m @ r" by (auto simp: prefix_def)
    ultimately show ?thesis using assms(1) by (intro exI [of _ "[]"] exI [of _ r]) simp
  next
    case False
    with Cons.prems obtain j' where j: "indexOf s m = Some j'" "j = Suc j'"
      by auto
    from Cons.IH [OF j(1)] obtain a r where ih: "s = a @ m @ r" "length a = j'"
      "occurrences m a = 0" by blast
    have "\<not> prefix m (c # a)"
    proof
      assume "prefix m (c # a)"
      then have "prefix m ((c # a) @ m @ r)" by (rule prefix_prefix)
      with False ih(1) show False by simp
    qed
    with ih j show ?thesis by (intro exI [of _ "c # a"] exI [of _ r]) simp
  qed
qed

lemma nth_hd_only:
  assumes "m \<noteq> []" "hd m \<notin> set (tl m)" "k < length m" "m ! k = hd m"
  shows "k = 0"
proof (rule ccontr)
  assume "k \<noteq> 0"
  then obtain k' where k: "k = Suc k'" by (cases k) auto
  with assms(3) have "k' < length (tl m)" by simp
  moreover have "tl m ! k' = m ! k" using assms(1) k by (cases m) simp_all
  ultimately have "m ! k \<in> set (tl m)" by (metis nth_mem)
  with assms(2,4) show False by simp
qed

lemma markers_differ:
  "\<not> prefix SFTP_CONFIG_MARKER (SFTP_CONFIG_END_MARKER @ r)"
  "hd SFTP_CONFIG_MARKER = hd SFTP_CONFIG_END_MARKER"
  by (simp_all add: marker_defs)

text \<open>
  When both markers are found and the cut leaves no end marker, the first start marker
  ends before the first end marker starts.
\<close>

lemma start_before_end:
  assumes o1: "old = a1 @ SFTP_CONFIG_MARKER @ r1"
    and o2: "old = a2 @ SFTP_CONFIG_END_MARKER @ r2"
    and clean: "occurrences SFTP_CONFIG_END_MARKER (a1 @ r2) = 0"
  shows "length a1 + length SFTP_CONFIG_MARKER \<le> length a2"
proof (rule ccontr)
  let ?M = SFTP_CONFIG_MARKER
  let ?E = SFTP_CONFIG_END_MARKER
  let ?i = "length a1"
  let ?j = "length a2"
  assume n: "\<not> ?i + length ?M \<le> ?j"
  note mo = markers_no_overlap
  have eq: "a1 @ ?M @ r1 = a2 @ ?E @ r2" using o1 o2 by simp
  have mi: "(a1 @ ?M @ r1) ! (?i + k) = ?M ! k" if "k < length ?M" for k
    using that by (simp add: nth_append)
  have ej: "(a2 @ ?E @ r2) ! (?j + k) = ?E ! k" if "k < length ?E" for k
    using that by (simp add: nth_append)
  consider "?j + length ?E \<le> ?i" | "?j < ?i" "?i < ?j + length ?E" | "?i = ?j"
    | "?i < ?j" "?j < ?i + length ?M"
    using n by linarith
  then show False
  proof cases
    case 1
    have "take ?i (a1 @ ?M @ r1) = take ?i (a2 @ ?E @ r2)" using eq by simp
    then have "a1 = a2 @ ?E @ take (?i - (?j + length ?E)) r2"
      using 1 by simp
    then have "1 \<le> occurrences ?E a1"
      using occurrences_at_least_one [of ?E a2 "take (?i - (?j + length ?E)) r2"] by simp
    moreover from clean have "occurrences ?E a1 = 0"
      using occurrences_append_zero [OF mo(3)] by blast
    ultimately show False by simp
  next
    case 2
    define k where "k = ?i - ?j"
    from 2 have k: "?i = ?j + k" "0 < k" "k < length ?E" by (simp_all add: k_def)
    have "(a1 @ ?M @ r1) ! ?i = hd ?M" using mi [of 0] mo(1) by (simp add: hd_conv_nth)
    moreover have "(a2 @ ?E @ r2) ! ?i = ?E ! k" using ej [OF k(3)] k(1) by simp
    ultimately have "?E ! k = hd ?E" using markers_differ(2) eq by simp
    from nth_hd_only [OF mo(3,4) k(3) this] k(2) show False by simp
  next
    case 3
    with eq have "?M @ r1 = ?E @ r2" by simp
    then have "prefix ?M (?E @ r2)" by (metis prefixI)
    with markers_differ(1) show False by simp
  next
    case 4
    define k where "k = ?j - ?i"
    from 4 have k: "?j = ?i + k" "0 < k" "k < length ?M" by (simp_all add: k_def)
    have "(a2 @ ?E @ r2) ! ?j = hd ?E" using ej [of 0] mo(3) by (simp add: hd_conv_nth)
    moreover have "(a1 @ ?M @ r1) ! ?j = ?M ! k" using mi [OF k(3)] k(1) by simp
    ultimately have "?M ! k = hd ?M" using markers_differ(2) eq by simp
    from nth_hd_only [OF mo(1,2) k(3) this] k(2) show False by simp
  qed
qed

text \<open>
  The condition on the prior content is also necessary. For a non-empty project list, if
  the text that \<^verbatim>\<open>updateSSHConfig\<close> computes holds exactly one start marker and
  exactly one end marker, then the prior content either holds no marker, or is a text
  \<open>a\<close>, the start marker, a text \<open>b\<close>, the first end marker and a text \<open>c\<close>,
  where \<open>a\<close> followed by \<open>c\<close> holds no marker.
\<close>

theorem updateSSHConfig_fence_condition_needed:
  assumes "projects \<noteq> []"
    and "occurrences SFTP_CONFIG_MARKER (newSSHConfig projects old) = 1"
    and "occurrences SFTP_CONFIG_END_MARKER (newSSHConfig projects old) = 1"
  shows "\<exists>rest a b c.
    (old = rest \<or>
     old = a @ SFTP_CONFIG_MARKER @ b @ SFTP_CONFIG_END_MARKER @ c \<and>
     occurrences SFTP_CONFIG_END_MARKER (a @ SFTP_CONFIG_MARKER @ b) = 0 \<and>
     rest = a @ c) \<and>
    occurrences SFTP_CONFIG_MARKER rest = 0 \<and>
    occurrences SFTP_CONFIG_END_MARKER rest = 0"
proof -
  let ?M = SFTP_CONFIG_MARKER
  let ?E = SFTP_CONFIG_END_MARKER
  note mo = markers_no_overlap
  have s: "10 \<notin> set ?M" "\<not> isWhiteSpace (last ?M)" "10 \<notin> set ?E" "\<not> isWhiteSpace (last ?E)"
    by (simp_all add: marker_defs isWhiteSpace_def)
  have cm: "occurrences ?M (removeOldConfig old) = 0"
    using occurrences_newSSHConfig_sum [OF mo(1) s(1,2) assms(1), of old] assms(1,2)
    by (simp add: occurrences_generated_start)
  have ce: "occurrences ?E (removeOldConfig old) = 0"
    using occurrences_newSSHConfig_sum [OF mo(3) s(3,4) assms(1), of old] assms(1,3)
    by (simp add: occurrences_generated_end)
  show ?thesis
  proof (cases "indexOf old ?M = None \<or> indexOf old ?E = None")
    case True
    then have "removeOldConfig old = old"
      by (auto simp: removeOldConfig_def split: option.splits)
    with cm ce show ?thesis by auto
  next
    case False
    then obtain i j where i: "indexOf old ?M = Some i" and j: "indexOf old ?E = Some j"
      by auto
    from indexOf_Some_split [OF mo(1) i] obtain a1 r1 where
      o1: "old = a1 @ ?M @ r1" and l1: "length a1 = i" by blast
    from indexOf_Some_split [OF mo(3) j] obtain a2 r2 where
      o2: "old = a2 @ ?E @ r2" and l2: "length a2 = j" and z2: "occurrences ?E a2 = 0" by blast
    have t: "take i old = a1" unfolding o1 using l1 by simp
    have d: "drop (j + length ?E) old = r2" unfolding o2 using l2 by simp
    have r: "removeOldConfig old = a1 @ r2"
      by (simp add: removeOldConfig_def i j t d)
    have ord: "length a1 + length ?M \<le> length a2"
      using start_before_end [OF o1 o2] ce r by simp
    define b where "b = take (length a2 - (length a1 + length ?M)) r1"
    have "take (length a2) (a1 @ ?M @ r1) = take (length a2) (a2 @ ?E @ r2)"
      using o1 o2 by simp
    then have tj: "a2 = a1 @ ?M @ b"
      using ord by (simp add: b_def)
    have "old = a1 @ ?M @ b @ ?E @ r2" using o2 tj by simp
    moreover have "occurrences ?E (a1 @ ?M @ b) = 0" using z2 tj by simp
    ultimately show ?thesis using cm ce r by metis
  qed
qed

theorem updateSSHConfig_fence_condition_needed_witness:
  "\<exists>rest a b c.
    (fenced_config = rest \<or>
     fenced_config = a @ SFTP_CONFIG_MARKER @ b @ SFTP_CONFIG_END_MARKER @ c \<and>
     occurrences SFTP_CONFIG_END_MARKER (a @ SFTP_CONFIG_MARKER @ b) = 0 \<and>
     rest = a @ c) \<and>
    occurrences SFTP_CONFIG_MARKER rest = 0 \<and>
    occurrences SFTP_CONFIG_END_MARKER rest = 0"
proof -
  have a: "[demo] \<noteq> []" by simp
  have b: "occurrences SFTP_CONFIG_MARKER (newSSHConfig [demo] fenced_config) = 1"
    by (simp add: newSSHConfig_def removeOldConfig_def generateSftpConfig_def trimEnd_def
        isWhiteSpace_def fenced_config_def fence_body_def marker_defs)
  have c: "occurrences SFTP_CONFIG_END_MARKER (newSSHConfig [demo] fenced_config) = 1"
    by (simp add: newSSHConfig_def removeOldConfig_def generateSftpConfig_def trimEnd_def
        isWhiteSpace_def fenced_config_def fence_body_def marker_defs)
  from updateSSHConfig_fence_condition_needed [OF a b c] show ?thesis .
qed

lemma indexOf_append_sep:
  assumes "c \<notin> set m" "m \<noteq> []" "occurrences m a = 0"
  shows "indexOf (a @ c # b) m = map_option (\<lambda>i. length a + 1 + i) (indexOf b m)"
  using assms(3)
proof (induction a)
  case Nil
  from assms have "\<not> prefix m (c # b)" by (cases m) auto
  then show ?case by (simp add: option.map_comp comp_def option.map_ident)
next
  case (Cons x a)
  have "prefix m ((x # a) @ c # b) \<longleftrightarrow> prefix m (x # a)"
    using assms(1) by (rule prefix_append_sep)
  with Cons show ?case
    by (auto simp: option.map_comp comp_def split: if_splits)
qed

lemma trimEnd_idem_newlines: "trimEnd (trimEnd s @ [10, 10]) = trimEnd s"
proof -
  have "dropWhile isWhiteSpace (dropWhile isWhiteSpace (rev s)) = dropWhile isWhiteSpace (rev s)"
    by (rule dropWhile_idem)
  then show ?thesis by (simp add: trimEnd_def isWhiteSpace_def)
qed


lemma removeOldConfig_generated:
  assumes "occurrences SFTP_CONFIG_MARKER t = 0" "occurrences SFTP_CONFIG_END_MARKER t = 0"
    and "projects \<noteq> []"
  shows "removeOldConfig (t @ generateSftpConfig projects) = t @ [10, 10]"
proof -
  define block where "block = tl (generateSftpConfig projects)"
  have g: "generateSftpConfig projects = 10 # block"
    using assms(3) by (simp add: block_def generateSftpConfig_def)
  have s: "SFTP_CONFIG_MARKER \<noteq> []" "10 \<notin> set SFTP_CONFIG_MARKER"
    "SFTP_CONFIG_END_MARKER \<noteq> []" "10 \<notin> set SFTP_CONFIG_END_MARKER"
    by (simp_all add: marker_defs)
  have i1: "indexOf block SFTP_CONFIG_MARKER = Some 0"
    using assms(3) by (simp add: block_def generateSftpConfig_def marker_defs)
  have i2: "indexOf block SFTP_CONFIG_END_MARKER = Some 272"
    using assms(3) by (simp add: block_def generateSftpConfig_def marker_defs)
  have l: "length SFTP_CONFIG_END_MARKER = 48" by (simp add: marker_defs)
  have d: "drop 320 block = [10]"
    using assms(3) by (simp add: block_def generateSftpConfig_def marker_defs)
  have a: "indexOf (t @ 10 # block) SFTP_CONFIG_MARKER = Some (length t + 1)"
    using indexOf_append_sep [OF s(2) s(1) assms(1), of block] by (simp add: i1)
  have b: "indexOf (t @ 10 # block) SFTP_CONFIG_END_MARKER = Some (length t + 1 + 272)"
    using indexOf_append_sep [OF s(4) s(3) assms(2), of block] by (simp add: i2)
  have "removeOldConfig (t @ 10 # block) =
      take (length t + 1) (t @ 10 # block) @ drop (length t + 1 + 272 + 48) (t @ 10 # block)"
    by (simp add: removeOldConfig_def a b l)
  also have "\<dots> = t @ [10] @ drop 320 block" by simp
  finally show ?thesis by (simp add: g d)
qed

text \<open>
  The files the tool itself writes. When a marker-free file has been updated for a
  non-empty project list, cutting the old block out of the result leaves no marker, and
  updating again gives the same text as updating the marker-free file directly: the old
  block is excised in full and the new one takes its place.
\<close>

theorem updateSSHConfig_regenerates:
  assumes "occurrences SFTP_CONFIG_MARKER base = 0" "occurrences SFTP_CONFIG_END_MARKER base = 0"
    and "earlier \<noteq> []"
  shows "newSSHConfig projects (newSSHConfig earlier base) = newSSHConfig projects base \<and>
         occurrences SFTP_CONFIG_MARKER (removeOldConfig (newSSHConfig earlier base)) = 0 \<and>
         occurrences SFTP_CONFIG_END_MARKER (removeOldConfig (newSSHConfig earlier base)) = 0"
proof -
  have s: "SFTP_CONFIG_MARKER \<noteq> []" "SFTP_CONFIG_END_MARKER \<noteq> []"
    "10 \<notin> set SFTP_CONFIG_MARKER" "10 \<notin> set SFTP_CONFIG_END_MARKER"
    by (simp_all add: marker_defs)
  have r: "removeOldConfig base = base"
    using assms(1) by (simp add: removeOldConfig_without_markers)
  have t: "occurrences SFTP_CONFIG_MARKER (trimEnd base) = 0"
      "occurrences SFTP_CONFIG_END_MARKER (trimEnd base) = 0"
    using assms s by (simp_all add: occurrences_trimEnd_zero)
  have c: "removeOldConfig (newSSHConfig earlier base) = trimEnd base @ [10, 10]"
    unfolding newSSHConfig_def r using removeOldConfig_generated [OF t assms(3)] .
  have e1: "newSSHConfig projects (newSSHConfig earlier base) = newSSHConfig projects base"
    by (simp add: newSSHConfig_def [of projects] c r trimEnd_idem_newlines)
  have "occurrences SFTP_CONFIG_MARKER (trimEnd base @ 10 # [10]) = 0"
    using occurrences_append_sep [OF s(3) s(1), of "trimEnd base" "[10]"] t s
    by (simp add: marker_defs)
  then have e2: "occurrences SFTP_CONFIG_MARKER (removeOldConfig (newSSHConfig earlier base)) = 0"
    by (simp add: c)
  have "occurrences SFTP_CONFIG_END_MARKER (trimEnd base @ 10 # [10]) = 0"
    using occurrences_append_sep [OF s(4) s(2), of "trimEnd base" "[10]"] t s
    by (simp add: marker_defs)
  then have e3: "occurrences SFTP_CONFIG_END_MARKER (removeOldConfig (newSSHConfig earlier base)) = 0"
    by (simp add: c)
  from e1 e2 e3 show ?thesis by blast
qed

theorem updateSSHConfig_regenerates_witness:
  "newSSHConfig [demo] (newSSHConfig [demo] (js ''Port 22'' @ [10])) =
     newSSHConfig [demo] (js ''Port 22'' @ [10])"
proof -
  have a: "occurrences SFTP_CONFIG_MARKER (js ''Port 22'' @ [10]) = 0"
    by (simp add: marker_defs)
  have b: "occurrences SFTP_CONFIG_END_MARKER (js ''Port 22'' @ [10]) = 0"
    by (simp add: marker_defs)
  have c: "[demo] \<noteq> []" by simp
  from updateSSHConfig_regenerates [OF a b c, of "[demo]"] show ?thesis by blast
qed

lemmas const_defs = BASE_PATH_def SFTP_USER_PREFIX_def SFTP_GROUP_def SSH_CONFIG_PATH_def
  STRUCTURE_sites_def STRUCTURE_scripts_def STRUCTURE_config_def TOOL_CONFIG_PATH_def
  PROJECTS_CONFIG_FILE_def

lemmas path_defs = path_join_def normalize_def

lemmas model_defs = initConfigDir_def loadProjects_def saveProjects_def getProject_def
  projectExists_def loadProjectConfig_def saveProjectConfig_def deleteSftpUser_def
  updateSSHConfig_def readSSHConfig_def writeSSHConfig_def rmSync_def

section \<open>Sequencing and frames\<close>

lemma and_then_Inr: "m w = (Inr x, w1) \<Longrightarrow> and_then m f w = f x w1"
  by (simp add: and_then_def)

lemma same_files_refl: "same_files w w"
  by (simp add: same_files_def)

lemma same_files_trans: "same_files w w1 \<Longrightarrow> same_files w1 w2 \<Longrightarrow> same_files w w2"
  by (simp add: same_files_def)

lemma execCommand_same_files: "execCommand e cmd cwd w = (r, w1) \<Longrightarrow> same_files w w1"
  by (auto simp: execCommand_def prog_defs same_files_def Let_def split: if_splits)

lemma pm2Command_same_files: "pm2Command e args w = (r, w1) \<Longrightarrow> same_files w w1"
  by (auto simp: pm2Command_def try_catch_def throw_def split: prod.splits sum.splits
      dest: execCommand_same_files)

section \<open>The protocol of updateSSHConfig\<close>

text \<open>
  Claim C2. Every run of \<^verbatim>\<open>updateSSHConfig\<close> is one of the following, whatever the
  environment answers. The configuration cannot be read: nothing is done. The copy to
  \<^verbatim>\<open>sshd_config.backup.NOW\<close> fails: nothing is written. The copy succeeds, so that
  the backup holds the original content, and then the write is attempted; if it fails the
  run ends. After a successful write the next call is the daemon's syntax check
  \<^verbatim>\<open>sshd -t\<close>: if it fails the run ends with the invalid-configuration error and no
  restart command; only after a successful check a restart command is issued.
\<close>

theorem updateSSHConfig_protocol:
  assumes "updateSSHConfig e projects w = (r, w')"
  shows "\<exists>evs. trace w' = trace w @ evs \<and>
    (evs = [] \<and> r = Inl SSHReadFailed \<and> ssh_config w = None \<and> ssh_config w' = None \<and> backups w' = backups w
     \<or> (\<exists>old. ssh_config w = Some old \<and>
          (evs = [Fs (CopyFile SSH_CONFIG_PATH (backupPathAt e w)) False] \<and>
             r = Inl SSHWriteFailed \<and> ssh_config w' = Some old \<and> backups w' = backups w
           \<or> backups w' = backups w @ [(backupPathAt e w, old)] \<and>
             (evs = [Fs (CopyFile SSH_CONFIG_PATH (backupPathAt e w)) True,
                     Fs (WriteFile SSH_CONFIG_PATH) False] \<and>
                r = Inl SSHWriteFailed \<and> ssh_config w' = Some old
              \<or> ssh_config w' = Some (newSSHConfig projects old) \<and>
                (\<exists>tail. evs = [Fs (CopyFile SSH_CONFIG_PATH (backupPathAt e w)) True,
                               Fs (WriteFile SSH_CONFIG_PATH) True] @ tail \<and>
                   (tail = [Exec (js ''sshd -t'') None False] \<and> r = Inl SSHConfigInvalid
                    \<or> tail = [Exec (js ''sshd -t'') None True,
                               Exec (js ''systemctl restart sshd'') None True] \<and> r = Inr ()
                    \<or> tail = [Exec (js ''sshd -t'') None True,
                               Exec (js ''systemctl restart sshd'') None False,
                               Exec (js ''systemctl restart ssh'') None True] \<and> r = Inr ()
                    \<or> tail = [Exec (js ''sshd -t'') None True,
                               Exec (js ''systemctl restart sshd'') None False,
                               Exec (js ''systemctl restart ssh'') None False] \<and>
                       r = Inl SSHRestartFailed))))))"
  using assms
  by (auto simp: updateSSHConfig_def readSSHConfig_def writeSSHConfig_def prog_defs shell_defs
      backupPathAt_def Let_def split: if_splits option.splits)

theorem updateSSHConfig_protocol_witness:
  "updateSSHConfig env_sshd_rejects [demo] world0 =
     (Inl SSHConfigInvalid,
      world0\<lparr>ssh_config := Some (newSSHConfig [demo] (js ''Port 22'' @ [10])),
        backups := [(js ''/etc/ssh/sshd_config.backup.0'', js ''Port 22'' @ [10])],
        trace := [Fs (CopyFile SSH_CONFIG_PATH (js ''/etc/ssh/sshd_config.backup.0'')) True,
                  Fs (WriteFile SSH_CONFIG_PATH) True,
                  Exec (js ''sshd -t'') None False],
        logs := [INFO, DEBUG, DEBUG, DEBUG, ERROR]\<rparr>)"
proof -
  obtain r w' where run: "updateSSHConfig env_sshd_rejects [demo] world0 = (r, w')"
    by (cases "updateSSHConfig env_sshd_rejects [demo] world0")
  from updateSSHConfig_protocol [OF run]
  have "\<exists>evs. trace w' = trace world0 @ evs" by blast
  with run show ?thesis
    by (simp add: updateSSHConfig_def readSSHConfig_def writeSSHConfig_def prog_defs shell_defs
        env_sshd_rejects_def env_ok_def world0_def Let_def const_defs js_def decimal.simps)
qed

section \<open>createProject on a registered name\<close>

lemma loadProjects_registry:
  "registry w = RegistryFile (Doc (Some projects)) \<Longrightarrow> loadProjects e w = (Inr projects, w)"
  by (simp add: loadProjects_def initConfigDir_def prog_defs)

lemma find_registered:
  "projectName \<in> p_name ` set projects \<Longrightarrow> find (\<lambda>p. p_name p = projectName) projects \<noteq> None"
  by (auto simp: find_None_iff)

lemma createProject_listed_name:
  assumes "registry w = RegistryFile (Doc (Some projects))"
    and "projectName \<in> p_name ` set projects"
  shows "createProject e projectName sftpPassword w =
    (Inl (if validName projectName then ProjectExists projectName else InvalidProjectName), w)"
proof (cases "validName projectName")
  case False
  then show ?thesis by (simp add: createProject_def throw_def)
next
  case True
  have "projectExists e projectName w = (Inr True, w)"
    using loadProjects_registry [OF assms(1), of e] find_registered [OF assms(2)]
    by (simp add: projectExists_def getProject_def and_then_def ret_def)
  with True show ?thesis by (simp add: createProject_def and_then_def throw_def)
qed

text \<open>
  Claim C3. In a world whose registry document lists only names that match the name
  pattern (the registries the tool writes), \<^verbatim>\<open>createProject\<close> with a listed name
  throws the duplicate error and leaves the world exactly as it was: no directory, no
  user, no command, no write, no log entry; the registry and the SSH configuration are
  unchanged.
\<close>

theorem createProject_registered_name:
  assumes "registry w = RegistryFile (Doc (Some projects))"
    and "registryNamesValid w"
    and "projectName \<in> p_name ` set projects"
  shows "createProject e projectName sftpPassword w = (Inl (ProjectExists projectName), w)"
proof -
  from assms(1,2) have "list_all (\<lambda>p. validName (p_name p)) projects"
    by (simp add: registryNamesValid_def)
  with assms(3) have "validName projectName" by (auto simp: list_all_iff)
  with createProject_listed_name [OF assms(1,3), of e sftpPassword] show ?thesis by simp
qed

theorem createProject_registered_name_witness:
  "createProject env_ok (js ''demo'') (js ''secret123'') world_demo =
     (Inl (ProjectExists (js ''demo'')), world_demo)"
proof -
  have a: "registry world_demo = RegistryFile (Doc (Some [demo]))"
    by (simp add: world_demo_def world0_def)
  have b: "js ''demo'' \<in> p_name ` set [demo]" by (simp add: demo_def)
  have c: "registryNamesValid world_demo"
    by (simp add: registryNamesValid_def world_demo_def world0_def demo_def validName_def
        isLetter_def isNameChar_def js_def)
  show ?thesis
    using createProject_registered_name [OF a c b, of env_ok "js ''secret123''"] by simp
qed

section \<open>The registry lists valid names\<close>

lemma keeps_ret: "keeps I (ret x)"
  by (simp add: keeps_def ret_def)

lemma keeps_throw: "keeps I (throw x)"
  by (simp add: keeps_def throw_def)

lemma keeps_get_world: "keeps I get_world"
  by (simp add: keeps_def get_world_def)

lemma keeps_and_then:
  assumes "keeps I m" "\<And>x. keeps I (f x)"
  shows "keeps I (and_then m f)"
  unfolding keeps_def
proof (intro allI impI)
  fix w assume "I w"
  obtain r w1 where m: "m w = (r, w1)" by (cases "m w")
  with assms(1) \<open>I w\<close> have "I w1" by (auto simp: keeps_def)
  with assms(2) m show "I (snd (and_then m f w))"
    by (cases r) (auto simp: and_then_def keeps_def)
qed

lemma keeps_try_catch:
  assumes "keeps I m" "\<And>x. keeps I (h x)"
  shows "keeps I (try_catch m h)"
  unfolding keeps_def
proof (intro allI impI)
  fix w assume "I w"
  obtain r w1 where m: "m w = (r, w1)" by (cases "m w")
  with assms(1) \<open>I w\<close> have "I w1" by (auto simp: keeps_def)
  with assms(2) m show "I (snd (try_catch m h w))"
    by (cases r) (auto simp: try_catch_def keeps_def)
qed

lemma keeps_if: "keeps I a \<Longrightarrow> keeps I b \<Longrightarrow> keeps I (if c then a else b)"
  by simp

lemma keeps_case_option:
  "keeps I a \<Longrightarrow> (\<And>x. keeps I (f x)) \<Longrightarrow> keeps I (case v of None \<Rightarrow> a | Some x \<Rightarrow> f x)"
  by (cases v) simp_all

lemma keeps_modify_other:
  "(\<And>w. registry (f w) = registry w) \<Longrightarrow> keeps registryNamesValid (modify f)"
  by (simp add: keeps_def modify_def registryNamesValid_def)

lemma keeps_logger: "keeps registryNamesValid (logger l)"
  by (simp add: keeps_def logger_def registryNamesValid_def)

lemma keeps_existsSync: "keeps I (existsSync e p)"
  by (simp add: keeps_def existsSync_def)

lemma keeps_date_now: "keeps I (date_now e)"
  by (simp add: keeps_def date_now_def)

lemma keeps_set_registry:
  "(case r of RegistryFile (Doc (Some projects)) \<Rightarrow> list_all (\<lambda>p. validName (p_name p)) projects
    | _ \<Rightarrow> True) \<Longrightarrow>
   keeps registryNamesValid (modify (\<lambda>w. w\<lparr>registry := r\<rparr>))"
  by (simp add: keeps_def modify_def registryNamesValid_def)

lemmas keeps_core = keeps_and_then keeps_try_catch keeps_if keeps_case_option keeps_ret
  keeps_throw keeps_get_world keeps_logger keeps_existsSync keeps_date_now

lemmas keeps_steps = keeps_core keeps_modify_other

lemma keeps_execCommand: "keeps registryNamesValid (execCommand e cmd cwd)"
  unfolding execCommand_def Let_def by (intro keeps_steps) simp

lemma keeps_fs_call: "keeps registryNamesValid (fs_call e op possible)"
  unfolding fs_call_def Let_def by (intro keeps_steps) simp

lemma keeps_pm2Command: "keeps registryNamesValid (pm2Command e args)"
  unfolding pm2Command_def by (intro keeps_steps keeps_execCommand)

lemma keeps_userExists: "keeps registryNamesValid (userExists e username)"
  unfolding userExists_def execSyncSafe_def by (intro keeps_steps keeps_execCommand)

lemma keeps_createSftpUser: "keeps registryNamesValid (createSftpUser e projectName password)"
  unfolding createSftpUser_def ensureSftpGroup_def groupExists_def execSyncSafe_def Let_def
  by (intro keeps_steps keeps_execCommand keeps_userExists)

lemma keeps_deleteSftpUser: "keeps registryNamesValid (deleteSftpUser e projectName)"
  unfolding deleteSftpUser_def Let_def
  by (intro keeps_steps keeps_execCommand keeps_userExists)

lemma keeps_updateSSHConfig: "keeps registryNamesValid (updateSSHConfig e projects)"
  unfolding updateSSHConfig_def readSSHConfig_def writeSSHConfig_def testSSHConfig_def
    restartSSH_def Let_def
  by (intro keeps_steps keeps_execCommand keeps_fs_call) simp_all

lemma keeps_loadProjectConfig: "keeps registryNamesValid (loadProjectConfig e projectName)"
  by (auto simp: keeps_def loadProjectConfig_def prog_defs date_now_def Let_def
      registryNamesValid_def split: json_file.splits option.splits)

lemma keeps_saveProjectConfig: "keeps registryNamesValid (saveProjectConfig e projectName config)"
  unfolding saveProjectConfig_def Let_def
  by (intro keeps_steps keeps_fs_call) simp

lemma keeps_deleteProcesses: "keeps registryNamesValid (deleteProcesses e projectName ss)"
  by (induction ss) (auto intro!: keeps_steps keeps_pm2Command)

lemma keeps_rmSync: "keeps registryNamesValid (rmSync e p)"
  unfolding rmSync_def by (intro keeps_steps keeps_fs_call) simp

lemma keeps_initConfigDir: "keeps registryNamesValid (initConfigDir e)"
  unfolding initConfigDir_def
  by (intro keeps_core keeps_fs_call keeps_set_registry) simp_all

text \<open>\<^verbatim>\<open>loadProjects\<close> returns valid names from a registry of valid names.\<close>

lemma loadProjects_names_valid:
  assumes "registryNamesValid w" "loadProjects e w = (Inr projects, w')"
  shows "list_all (\<lambda>p. validName (p_name p)) projects"
  using assms
  by (auto simp: loadProjects_def initConfigDir_def fs_call_def prog_defs Let_def
      registryNamesValid_def
      split: if_splits registry_store.splits json_file.splits option.splits)

lemma keeps_loadProjects: "keeps registryNamesValid (loadProjects e)"
  unfolding loadProjects_def
  by (intro keeps_steps keeps_initConfigDir)
     (auto simp: keeps_def throw_def ret_def split: registry_store.splits json_file.splits)

lemma keeps_after_loadProjects:
  assumes "\<And>projects. list_all (\<lambda>p. validName (p_name p)) projects \<Longrightarrow>
      keeps registryNamesValid (f projects)"
  shows "keeps registryNamesValid (and_then (loadProjects e) f)"
  unfolding keeps_def
proof (intro allI impI)
  fix w assume i: "registryNamesValid w"
  obtain r w1 where m: "loadProjects e w = (r, w1)" by (cases "loadProjects e w")
  with keeps_loadProjects [of e] i have i1: "registryNamesValid w1" by (auto simp: keeps_def)
  show "registryNamesValid (snd (and_then (loadProjects e) f w))"
  proof (cases r)
    case (Inl err)
    with m i1 show ?thesis by (simp add: and_then_def)
  next
    case (Inr projects)
    with m i have "list_all (\<lambda>p. validName (p_name p)) projects"
      using loadProjects_names_valid by blast
    from assms [OF this] i1 m Inr show ?thesis by (simp add: and_then_def keeps_def)
  qed
qed

lemma keeps_saveProjects:
  assumes "list_all (\<lambda>p. validName (p_name p)) projects"
  shows "keeps registryNamesValid (saveProjects e projects)"
  unfolding saveProjects_def
  using assms
  by (intro keeps_core keeps_initConfigDir keeps_fs_call keeps_set_registry) simp

lemma keeps_getProject: "keeps registryNamesValid (getProject e projectName)"
  unfolding getProject_def by (intro keeps_steps keeps_loadProjects)

lemma keeps_createProject: "keeps registryNamesValid (createProject e projectName sftpPassword)"
proof (cases "validName projectName")
  case False
  then show ?thesis by (simp add: createProject_def keeps_throw)
next
  case True
  have tail: "keeps registryNamesValid
      (and_then (saveProjects e (projects @ [entry])) (\<lambda>_.
       and_then (updateSSHConfig e (projects @ [entry])) (\<lambda>_.
       and_then (logger SUCCESS) (\<lambda>_. ret projectConfig))))"
    if "list_all (\<lambda>p. validName (p_name p)) projects" "p_name entry = projectName"
    for projects entry projectConfig
    using that True
    by (intro keeps_steps keeps_saveProjects keeps_updateSSHConfig) simp
  show ?thesis
    unfolding createProject_def projectExists_def Let_def
    using True
    by (simp only: not_True_eq_False if_False simp_thms)
       (intro keeps_after_loadProjects keeps_steps keeps_getProject keeps_fs_call
          keeps_createSftpUser keeps_saveProjectConfig tail, simp_all)
qed

lemma keeps_deleteProject: "keeps registryNamesValid (deleteProject e projectName deleteFiles)"
proof -
  have tail: "keeps registryNamesValid
      (and_then (saveProjects e (filter P projects)) (\<lambda>_.
       and_then (updateSSHConfig e (filter P projects)) (\<lambda>_.
       and_then removeFiles (\<lambda>_. logger SUCCESS))))"
    if "list_all (\<lambda>p. validName (p_name p)) projects" "keeps registryNamesValid removeFiles"
    for projects P and removeFiles :: "unit prog"
    using that
    by (intro keeps_steps keeps_saveProjects keeps_updateSSHConfig)
       (simp_all add: list_all_iff)
  show ?thesis
    unfolding deleteProject_def Let_def
    by (intro keeps_after_loadProjects keeps_steps keeps_getProject keeps_loadProjectConfig
          keeps_deleteProcesses keeps_deleteSftpUser tail keeps_rmSync)
qed

text \<open>
  The condition on the registry is an invariant of the tool: the two operations that
  write the registry keep it, and the registry that \<^verbatim>\<open>initConfigDir\<close> creates is
  empty.
\<close>

theorem registry_names_stay_valid:
  assumes "registryNamesValid w"
  shows "registryNamesValid (snd (createProject e created sftpPassword w)) \<and>
         registryNamesValid (snd (deleteProject e deleted deleteFiles w))"
  using assms keeps_createProject [of e created sftpPassword]
    keeps_deleteProject [of e deleted deleteFiles]
  by (simp add: keeps_def)

theorem registry_names_stay_valid_witness:
  "registryNamesValid world_demo \<and>
   registryNamesValid (snd (createProject env_ok (js ''shop'') (js ''secret123'') world_demo)) \<and>
   registryNamesValid (snd (deleteProject env_ok (js ''demo'') True world_demo))"
proof -
  have v: "registryNamesValid world_demo"
    by (simp add: registryNamesValid_def world_demo_def world0_def demo_def validName_def
        isLetter_def isNameChar_def js_def)
  from registry_names_stay_valid [OF v, of env_ok "js ''shop''" "js ''secret123''" "js ''demo''" True] v
  show ?thesis by simp
qed

section \<open>deleteProject and the deletion of the SFTP user\<close>

lemma deleteProcesses_same_files:
  "\<exists>w1. deleteProcesses e projectName ss w = (Inr (), w1) \<and> same_files w w1"
proof (induction ss arbitrary: w)
  case Nil
  then show ?case by (simp add: ret_def same_files_refl)
next
  case (Cons s ss)
  obtain r w1 where p: "pm2Command e (js ''delete '' @ projectName @ js ''-'' @ name s) w = (r, w1)"
    by (cases "pm2Command e (js ''delete '' @ projectName @ js ''-'' @ name s) w")
  then have f: "same_files w w1" by (rule pm2Command_same_files)
  from p have "try_catch (pm2Command e (js ''delete '' @ projectName @ js ''-'' @ name s))
      (\<lambda>_. ret ()) w = (Inr (), w1)"
    by (cases r) (simp_all add: try_catch_def ret_def)
  then have "deleteProcesses e projectName (s # ss) w = deleteProcesses e projectName ss w1"
    by (simp add: and_then_Inr)
  with Cons [of w1] f show ?case by (auto intro: same_files_trans)
qed

lemma loadProjectConfig_same_files:
  "\<exists>config w1. loadProjectConfig e projectName w = (Inr config, w1) \<and> same_files w w1"
  by (auto simp: loadProjectConfig_def prog_defs date_now_def Let_def same_files_def
      split: json_file.splits option.splits)

lemma stop_processes_same_files:
  "\<exists>w1. try_catch
          (and_then (loadProjectConfig e projectName) (\<lambda>projectConfig.
           deleteProcesses e projectName (services projectConfig)))
          (\<lambda>_. logger WARN) w = (Inr (), w1) \<and> same_files w w1"
proof -
  obtain config w1 where a: "loadProjectConfig e projectName w = (Inr config, w1)" "same_files w w1"
    using loadProjectConfig_same_files by blast
  obtain w2 where b: "deleteProcesses e projectName (services config) w1 = (Inr (), w2)"
      "same_files w1 w2"
    using deleteProcesses_same_files by blast
  from a b show ?thesis
    by (auto simp: try_catch_def and_then_def intro: same_files_trans)
qed

lemma deleteSftpUser_when_userdel_succeeds:
  assumes "\<forall>h. cmd_ok e h (js ''userdel '' @ SFTP_USER_PREFIX @ projectName) None"
  shows "\<exists>w1. deleteSftpUser e projectName w = (Inr (), w1) \<and> same_files w w1"
  using assms
  by (auto simp: deleteSftpUser_def userExists_def execSyncSafe_def execCommand_def prog_defs
      same_files_def Let_def)

lemma deleteSftpUser_when_userdel_fails:
  assumes "\<forall>h. cmd_ok e h (js ''id '' @ SFTP_USER_PREFIX @ projectName) None"
    and "\<forall>h. \<not> cmd_ok e h (js ''userdel '' @ SFTP_USER_PREFIX @ projectName) None"
  shows "\<exists>w1. deleteSftpUser e projectName w =
           (Inl (CommandFailed (js ''userdel '' @ SFTP_USER_PREFIX @ projectName)), w1) \<and>
         same_files w w1"
  using assms
  by (auto simp: deleteSftpUser_def userExists_def execSyncSafe_def execCommand_def prog_defs
      same_files_def Let_def)

lemma saveProjects_when_writable:
  assumes "\<forall>h. fs_ok e h (WriteFile PROJECTS_CONFIG_FILE)" "registry w = RegistryFile doc"
  shows "\<exists>w1. saveProjects e projects w = (Inr (), w1) \<and>
           registry w1 = RegistryFile (Doc (Some projects)) \<and> ssh_config w1 = ssh_config w"
  using assms
  by (auto simp: saveProjects_def initConfigDir_def fs_call_def prog_defs Let_def)

lemma updateSSHConfig_when_writable:
  assumes "\<forall>h p. fs_ok e h (CopyFile SSH_CONFIG_PATH p)"
    and "\<forall>h. fs_ok e h (WriteFile SSH_CONFIG_PATH)"
    and "ssh_config w = Some old"
  shows "\<exists>r w1. updateSSHConfig e projects w = (r, w1) \<and>
           ssh_config w1 = Some (newSSHConfig projects old) \<and> registry w1 = registry w \<and>
           (r = Inr () \<or> r = Inl SSHConfigInvalid \<or> r = Inl SSHRestartFailed)"
  using assms
  by (auto simp: updateSSHConfig_def readSSHConfig_def writeSSHConfig_def prog_defs shell_defs Let_def)

lemma remove_files_keeps:
  "\<exists>r w1. (if deleteFiles then
      (let projectPath = path_join [BASE_PATH, projectName] in
       and_then (existsSync e projectPath) (\<lambda>ex.
         if ex then and_then (rmSync e projectPath) (\<lambda>_. logger SUCCESS)
         else ret ()))
    else ret ()) w = (r, w1) \<and> ssh_config w1 = ssh_config w \<and> registry w1 = registry w \<and>
    (r = Inr () \<or> r = Inl (FsFailed (RmTree (path_join [BASE_PATH, projectName]))))"
  by (auto simp: rmSync_def existsSync_def fs_call_def prog_defs Let_def split: if_splits)

text \<open>
  Claim C4, as amended. For a registered project, when the account removal
  \<^verbatim>\<open>userdel\<close> succeeds (if it is reached) and the registry and the daemon
  configuration can be written, \<^verbatim>\<open>deleteProject\<close> saves the registry without the
  project and rewrites the SSH configuration for the remaining projects: whether the
  process kill \<^verbatim>\<open>pkill\<close> of the user deletion failed or not, whether the user existed
  or not, whether the supervisor's deletions failed or not, and whatever the daemon's
  syntax check, its restart and the removal of the files do afterwards. The call ends
  normally or with the error of one of these three later steps.
\<close>

theorem deleteProject_cleanup_after_user_deletion:
  assumes reg: "registry w = RegistryFile (Doc (Some projects))"
    and mem: "projectName \<in> p_name ` set projects"
    and ssh: "ssh_config w = Some old"
    and userdel: "\<forall>h. cmd_ok e h (js ''userdel '' @ SFTP_USER_PREFIX @ projectName) None"
    and save: "\<forall>h. fs_ok e h (WriteFile PROJECTS_CONFIG_FILE)"
    and copy: "\<forall>h p. fs_ok e h (CopyFile SSH_CONFIG_PATH p)"
    and rewrite: "\<forall>h. fs_ok e h (WriteFile SSH_CONFIG_PATH)"
  shows "\<exists>r w'. deleteProject e projectName deleteFiles w = (r, w') \<and>
           registry w' = RegistryFile (Doc (Some (filter (\<lambda>p. p_name p \<noteq> projectName) projects))) \<and>
           ssh_config w' =
             Some (newSSHConfig (filter (\<lambda>p. p_name p \<noteq> projectName) projects) old) \<and>
           (r = Inr () \<or> r = Inl SSHConfigInvalid \<or> r = Inl SSHRestartFailed \<or>
            r = Inl (FsFailed (RmTree (path_join [BASE_PATH, projectName]))))"
proof -
  let ?rest = "filter (\<lambda>p. p_name p \<noteq> projectName) projects"
  obtain p where found: "find (\<lambda>p. p_name p = projectName) projects = Some p"
    using mem by (cases "find (\<lambda>p. p_name p = projectName) projects") (auto simp: find_None_iff)
  have s0: "getProject e projectName w = (Inr (Some p), w)"
    using loadProjects_registry [OF reg] found by (simp add: getProject_def and_then_def ret_def)
  obtain w1 where s1: "logger INFO w = (Inr (), w1)" "same_files w w1"
    by (simp add: logger_def same_files_def)
  obtain w2 where s2: "try_catch
          (and_then (loadProjectConfig e projectName) (\<lambda>projectConfig.
           deleteProcesses e projectName (services projectConfig)))
          (\<lambda>_. logger WARN) w1 = (Inr (), w2)" "same_files w1 w2"
    using stop_processes_same_files by blast
  obtain w3 where s3: "deleteSftpUser e projectName w2 = (Inr (), w3)" "same_files w2 w3"
    using deleteSftpUser_when_userdel_succeeds [OF userdel] by blast
  have f3: "same_files w w3" using s1 s2 s3 by (blast intro: same_files_trans)
  then have r3: "registry w3 = RegistryFile (Doc (Some projects))" "ssh_config w3 = Some old"
    using reg ssh by (simp_all add: same_files_def)
  have s4: "loadProjects e w3 = (Inr projects, w3)" using r3 by (simp add: loadProjects_registry)
  obtain w5 where s5: "saveProjects e ?rest w3 = (Inr (), w5)"
      "registry w5 = RegistryFile (Doc (Some ?rest))" "ssh_config w5 = Some old"
    using saveProjects_when_writable [OF save r3(1), of ?rest] r3 by auto
  obtain r6 w6 where s6: "updateSSHConfig e ?rest w5 = (r6, w6)"
      "ssh_config w6 = Some (newSSHConfig ?rest old)" "registry w6 = RegistryFile (Doc (Some ?rest))"
      "r6 = Inr () \<or> r6 = Inl SSHConfigInvalid \<or> r6 = Inl SSHRestartFailed"
    using updateSSHConfig_when_writable [OF copy rewrite s5(3), of ?rest] s5(2) by auto
  define removeFiles where "removeFiles =
    (if deleteFiles then
      (let projectPath = path_join [BASE_PATH, projectName] in
       and_then (existsSync e projectPath) (\<lambda>ex.
         if ex then and_then (rmSync e projectPath) (\<lambda>_. logger SUCCESS)
         else ret ()))
    else ret ())"
  obtain r7 w7 where s7: "removeFiles w6 = (r7, w7)"
    "ssh_config w7 = ssh_config w6" "registry w7 = registry w6"
    "r7 = Inr () \<or> r7 = Inl (FsFailed (RmTree (path_join [BASE_PATH, projectName])))"
    unfolding removeFiles_def using remove_files_keeps [of deleteFiles projectName e w6] by blast
  have eq: "deleteProject e projectName deleteFiles w =
      (case r6 of Inl err \<Rightarrow> (Inl err, w6)
       | Inr _ \<Rightarrow> (case r7 of Inl err \<Rightarrow> (Inl err, w7) | Inr _ \<Rightarrow> logger SUCCESS w7))"
    unfolding deleteProject_def removeFiles_def [symmetric]
    by (simp add: and_then_def s0 s1(1) s2(1) s3(1) s4 s5(1) s6(1) s7(1) Let_def
        split: sum.splits)
  show ?thesis
  proof (cases r6)
    case (Inl err)
    with eq s6 show ?thesis by auto
  next
    case r6: (Inr u)
    show ?thesis
    proof (cases r7)
      case (Inl err)
      with eq r6 s6 s7 show ?thesis by auto
    next
      case (Inr v)
      with eq r6 s6 s7 show ?thesis by (auto simp: logger_def)
    qed
  qed
qed

lemma deleteProject_pkill_run:
  "deleteProject env_pkill_fails (js ''demo'') False world_demo =
     (Inr (),
      world_demo\<lparr>ssh_config := Some (js ''Port 22''),
        backups := [(js ''/etc/ssh/sshd_config.backup.0'', js ''Port 22'' @ [10])],
        registry := RegistryFile (Doc (Some [])),
        trace := [Exec (js ''id sftp_demo'') None True,
                  Exec (js ''pkill -u sftp_demo'') None False,
                  Exec (js ''userdel sftp_demo'') None True,
                  Fs (WriteFile PROJECTS_CONFIG_FILE) True,
                  Fs (CopyFile SSH_CONFIG_PATH (js ''/etc/ssh/sshd_config.backup.0'')) True,
                  Fs (WriteFile SSH_CONFIG_PATH) True,
                  Exec (js ''sshd -t'') None True,
                  Exec (js ''systemctl restart sshd'') None True],
        logs := [INFO, DEBUG, INFO, DEBUG, DEBUG, DEBUG, SUCCESS, DEBUG, INFO, DEBUG, DEBUG, DEBUG,
                 SUCCESS, SUCCESS, SUCCESS]\<rparr>)"
  by (simp add: deleteProject_def model_defs prog_defs shell_defs path_defs const_defs
      env_pkill_fails_def env_ok_def world_demo_def world0_def demo_def Let_def js_def
      newSSHConfig_def removeOldConfig_def generateSftpConfig_def trimEnd_def isWhiteSpace_def
      marker_defs decimal.simps)

lemma deleteProject_check_run:
  "deleteProject env_pkill_and_check_fail (js ''demo'') False world_demo =
     (Inl SSHConfigInvalid,
      world_demo\<lparr>ssh_config := Some (js ''Port 22''),
        backups := [(js ''/etc/ssh/sshd_config.backup.0'', js ''Port 22'' @ [10])],
        registry := RegistryFile (Doc (Some [])),
        trace := [Exec (js ''id sftp_demo'') None True,
                  Exec (js ''pkill -u sftp_demo'') None False,
                  Exec (js ''userdel sftp_demo'') None True,
                  Fs (WriteFile PROJECTS_CONFIG_FILE) True,
                  Fs (CopyFile SSH_CONFIG_PATH (js ''/etc/ssh/sshd_config.backup.0'')) True,
                  Fs (WriteFile SSH_CONFIG_PATH) True,
                  Exec (js ''sshd -t'') None False],
        logs := [INFO, DEBUG, INFO, DEBUG, DEBUG, DEBUG, SUCCESS, DEBUG, INFO, DEBUG, DEBUG, DEBUG,
                 ERROR]\<rparr>)"
  by (simp add: deleteProject_def model_defs prog_defs shell_defs path_defs const_defs
      env_pkill_and_check_fail_def env_ok_def world_demo_def world0_def demo_def Let_def js_def
      newSSHConfig_def removeOldConfig_def generateSftpConfig_def trimEnd_def isWhiteSpace_def
      marker_defs decimal.simps)

theorem deleteProject_cleanup_after_user_deletion_witness:
  "fst (deleteProject env_pkill_fails (js ''demo'') False world_demo) = Inr () \<and>
   Exec (js ''pkill -u sftp_demo'') None False \<in>
     set (trace (snd (deleteProject env_pkill_fails (js ''demo'') False world_demo))) \<and>
   registry (snd (deleteProject env_pkill_fails (js ''demo'') False world_demo)) =
     RegistryFile (Doc (Some [])) \<and>
   ssh_config (snd (deleteProject env_pkill_fails (js ''demo'') False world_demo)) =
     Some (newSSHConfig [] (js ''Port 22'' @ [10])) \<and>
   fst (deleteProject env_pkill_and_check_fail (js ''demo'') False world_demo) =
     Inl SSHConfigInvalid \<and>
   registry (snd (deleteProject env_pkill_and_check_fail (js ''demo'') False world_demo)) =
     RegistryFile (Doc (Some [])) \<and>
   ssh_config (snd (deleteProject env_pkill_and_check_fail (js ''demo'') False world_demo)) =
     Some (newSSHConfig [] (js ''Port 22'' @ [10]))"
proof -
  have reg: "registry world_demo = RegistryFile (Doc (Some [demo]))"
    by (simp add: world_demo_def world0_def)
  have mem: "js ''demo'' \<in> p_name ` set [demo]" by (simp add: demo_def)
  have ssh: "ssh_config world_demo = Some (js ''Port 22'' @ [10])"
    by (simp add: world_demo_def world0_def)
  have c1: "\<forall>h. cmd_ok env_pkill_fails h (js ''userdel '' @ SFTP_USER_PREFIX @ js ''demo'') None"
    by (simp add: env_pkill_fails_def env_ok_def SFTP_USER_PREFIX_def js_def)
  have f1: "\<forall>h. fs_ok env_pkill_fails h (WriteFile PROJECTS_CONFIG_FILE)"
    by (simp add: env_pkill_fails_def env_ok_def)
  have f2: "\<forall>h p. fs_ok env_pkill_fails h (CopyFile SSH_CONFIG_PATH p)"
    by (simp add: env_pkill_fails_def env_ok_def)
  have f3: "\<forall>h. fs_ok env_pkill_fails h (WriteFile SSH_CONFIG_PATH)"
    by (simp add: env_pkill_fails_def env_ok_def)
  have d1: "\<forall>h. cmd_ok env_pkill_and_check_fail h
      (js ''userdel '' @ SFTP_USER_PREFIX @ js ''demo'') None"
    by (simp add: env_pkill_and_check_fail_def env_ok_def SFTP_USER_PREFIX_def js_def)
  have g1: "\<forall>h. fs_ok env_pkill_and_check_fail h (WriteFile PROJECTS_CONFIG_FILE)"
    by (simp add: env_pkill_and_check_fail_def env_ok_def)
  have g2: "\<forall>h p. fs_ok env_pkill_and_check_fail h (CopyFile SSH_CONFIG_PATH p)"
    by (simp add: env_pkill_and_check_fail_def env_ok_def)
  have g3: "\<forall>h. fs_ok env_pkill_and_check_fail h (WriteFile SSH_CONFIG_PATH)"
    by (simp add: env_pkill_and_check_fail_def env_ok_def)
  have rest: "filter (\<lambda>p. p_name p \<noteq> js ''demo'') [demo] = []" by (simp add: demo_def)
  from deleteProject_cleanup_after_user_deletion [OF reg mem ssh c1 f1 f2 f3, of False]
  have "registry (snd (deleteProject env_pkill_fails (js ''demo'') False world_demo)) =
          RegistryFile (Doc (Some [])) \<and>
        ssh_config (snd (deleteProject env_pkill_fails (js ''demo'') False world_demo)) =
          Some (newSSHConfig [] (js ''Port 22'' @ [10]))"
    unfolding rest by auto
  moreover
  from deleteProject_cleanup_after_user_deletion [OF reg mem ssh d1 g1 g2 g3, of False]
  have "registry (snd (deleteProject env_pkill_and_check_fail (js ''demo'') False world_demo)) =
          RegistryFile (Doc (Some [])) \<and>
        ssh_config (snd (deleteProject env_pkill_and_check_fail (js ''demo'') False world_demo)) =
          Some (newSSHConfig [] (js ''Port 22'' @ [10]))"
    unfolding rest by auto
  moreover have "Exec (js ''pkill -u sftp_demo'') None False \<in>
     set (trace (snd (deleteProject env_pkill_fails (js ''demo'') False world_demo)))"
    by (simp add: deleteProject_pkill_run)
  moreover have "fst (deleteProject env_pkill_fails (js ''demo'') False world_demo) = Inr ()"
    by (simp add: deleteProject_pkill_run)
  moreover have "fst (deleteProject env_pkill_and_check_fail (js ''demo'') False world_demo) =
      Inl SSHConfigInvalid"
    by (simp add: deleteProject_check_run)
  ultimately show ?thesis by blast
qed

theorem deleteProject_userdel_counterexample:
  "fst (deleteProject env_userdel_fails (js ''demo'') False world_demo) =
     Inl (CommandFailed (js ''userdel sftp_demo'')) \<and>
   registry (snd (deleteProject env_userdel_fails (js ''demo'') False world_demo)) =
     RegistryFile (Doc (Some [demo])) \<and>
   ssh_config (snd (deleteProject env_userdel_fails (js ''demo'') False world_demo)) =
     Some (js ''Port 22'' @ [10]) \<and>
   trace (snd (deleteProject env_userdel_fails (js ''demo'') False world_demo)) =
     [Exec (js ''id sftp_demo'') None True,
      Exec (js ''pkill -u sftp_demo'') None True,
      Exec (js ''userdel sftp_demo'') None False]"
  by (simp add: deleteProject_def model_defs prog_defs shell_defs path_defs const_defs
      env_userdel_fails_def env_ok_def world_demo_def world0_def demo_def Let_def js_def)

text \<open>
  When the account removal fails for an existing user, \<^verbatim>\<open>deleteProject\<close> throws the
  command's error and every file is as it was before the call.
\<close>

theorem deleteProject_stops_when_userdel_fails:
  assumes reg: "registry w = RegistryFile (Doc (Some projects))"
    and mem: "projectName \<in> p_name ` set projects"
    and exists: "\<forall>h. cmd_ok e h (js ''id '' @ SFTP_USER_PREFIX @ projectName) None"
    and userdel: "\<forall>h. \<not> cmd_ok e h (js ''userdel '' @ SFTP_USER_PREFIX @ projectName) None"
  shows "\<exists>w'. deleteProject e projectName deleteFiles w =
           (Inl (CommandFailed (js ''userdel '' @ SFTP_USER_PREFIX @ projectName)), w') \<and>
         same_files w w'"
proof -
  obtain p where found: "find (\<lambda>p. p_name p = projectName) projects = Some p"
    using mem by (cases "find (\<lambda>p. p_name p = projectName) projects") (auto simp: find_None_iff)
  have s0: "getProject e projectName w = (Inr (Some p), w)"
    using loadProjects_registry [OF reg] found by (simp add: getProject_def and_then_def ret_def)
  obtain w1 where s1: "logger INFO w = (Inr (), w1)" "same_files w w1"
    by (simp add: logger_def same_files_def)
  obtain w2 where s2: "try_catch
          (and_then (loadProjectConfig e projectName) (\<lambda>projectConfig.
           deleteProcesses e projectName (services projectConfig)))
          (\<lambda>_. logger WARN) w1 = (Inr (), w2)" "same_files w1 w2"
    using stop_processes_same_files by blast
  obtain w3 where s3: "deleteSftpUser e projectName w2 =
      (Inl (CommandFailed (js ''userdel '' @ SFTP_USER_PREFIX @ projectName)), w3)"
      "same_files w2 w3"
    using deleteSftpUser_when_userdel_fails [OF exists userdel] by blast
  have "deleteProject e projectName deleteFiles w =
      (Inl (CommandFailed (js ''userdel '' @ SFTP_USER_PREFIX @ projectName)), w3)"
    unfolding deleteProject_def by (simp add: and_then_def s0 s1(1) s2(1) s3(1))
  moreover have "same_files w w3" using s1 s2 s3 by (blast intro: same_files_trans)
  ultimately show ?thesis by blast
qed

theorem deleteProject_stops_when_userdel_fails_witness:
  "fst (deleteProject env_userdel_fails (js ''demo'') True world_demo) =
     Inl (CommandFailed (js ''userdel '' @ SFTP_USER_PREFIX @ js ''demo'')) \<and>
   same_files world_demo (snd (deleteProject env_userdel_fails (js ''demo'') True world_demo))"
proof -
  have reg: "registry world_demo = RegistryFile (Doc (Some [demo]))"
    by (simp add: world_demo_def world0_def)
  have mem: "js ''demo'' \<in> p_name ` set [demo]" by (simp add: demo_def)
  have a: "\<forall>h. cmd_ok env_userdel_fails h (js ''id '' @ SFTP_USER_PREFIX @ js ''demo'') None"
    by (simp add: env_userdel_fails_def env_ok_def SFTP_USER_PREFIX_def js_def)
  have b: "\<forall>h. \<not> cmd_ok env_userdel_fails h (js ''userdel '' @ SFTP_USER_PREFIX @ js ''demo'') None"
    by (simp add: env_userdel_fails_def env_ok_def SFTP_USER_PREFIX_def js_def)
  from deleteProject_stops_when_userdel_fails [OF reg mem a b, of True] show ?thesis by auto
qed

section \<open>Loading degrades instead of failing\<close>

lemma loadProjects_never_raises: "\<exists>projects w'. loadProjects e w = (Inr projects, w')"
  by (auto simp: loadProjects_def initConfigDir_def prog_defs fs_call_def Let_def
      split: registry_store.splits json_file.splits option.splits)

lemma loadProjectConfig_never_raises: "\<exists>config w'. loadProjectConfig e projectName w = (Inr config, w')"
  by (auto simp: loadProjectConfig_def prog_defs date_now_def Let_def
      split: json_file.splits option.splits)

text \<open>
  Claim C6. \<^verbatim>\<open>loadProjects\<close> never throws, and when the registry document cannot be
  read or parsed it logs an error and returns the empty list. \<^verbatim>\<open>loadProjectConfig\<close>
  never throws, and when the project's document is absent, unreadable or unparseable it
  returns the default document: the project's name, no services, and the current time as
  \<^verbatim>\<open>createdAt\<close>.
\<close>

theorem load_degrades:
  "(\<exists>projects w'. loadProjects e w = (Inr projects, w')) \<and>
   (registry w = RegistryFile Unreadable \<or> registry w = RegistryFile Unparseable \<longrightarrow>
      loadProjects e w = (Inr [], w\<lparr>logs := logs w @ [ERROR]\<rparr>)) \<and>
   (\<exists>config w'. loadProjectConfig e projectName w = (Inr config, w')) \<and>
   (configs w (path_join [BASE_PATH, projectName, STRUCTURE_config]) \<in>
        {None, Some Unreadable, Some Unparseable} \<longrightarrow>
      (\<exists>w'. loadProjectConfig e projectName w =
         (Inr \<lparr>c_name = projectName, c_path = None, c_sftpUser = None, services = [],
               c_createdAt = now e (trace w), c_updatedAt = None\<rparr>, w')))"
proof -
  have "registry w = RegistryFile Unreadable \<or> registry w = RegistryFile Unparseable \<longrightarrow>
      loadProjects e w = (Inr [], w\<lparr>logs := logs w @ [ERROR]\<rparr>)"
    by (auto simp: loadProjects_def initConfigDir_def prog_defs)
  moreover have "configs w (path_join [BASE_PATH, projectName, STRUCTURE_config]) \<in>
        {None, Some Unreadable, Some Unparseable} \<longrightarrow>
      (\<exists>w'. loadProjectConfig e projectName w =
         (Inr \<lparr>c_name = projectName, c_path = None, c_sftpUser = None, services = [],
               c_createdAt = now e (trace w), c_updatedAt = None\<rparr>, w'))"
    by (auto simp: loadProjectConfig_def prog_defs date_now_def Let_def)
  ultimately show ?thesis
    using loadProjects_never_raises loadProjectConfig_never_raises by blast
qed

theorem load_degrades_witness:
  "loadProjects env_ok (world0\<lparr>registry := RegistryFile Unparseable\<rparr>) =
     (Inr [], world0\<lparr>registry := RegistryFile Unparseable, logs := [ERROR]\<rparr>) \<and>
   fst (loadProjectConfig env_ok (js ''demo'') world0) =
     Inr \<lparr>c_name = js ''demo'', c_path = None, c_sftpUser = None, services = [],
          c_createdAt = 0, c_updatedAt = None\<rparr>"
proof -
  have a: "registry (world0\<lparr>registry := RegistryFile Unparseable\<rparr>) = RegistryFile Unparseable"
    by simp
  have b: "configs world0 (path_join [BASE_PATH, js ''demo'', STRUCTURE_config]) = None"
    by (simp add: world0_def)
  from load_degrades [of env_ok "world0\<lparr>registry := RegistryFile Unparseable\<rparr>"] a
  have "loadProjects env_ok (world0\<lparr>registry := RegistryFile Unparseable\<rparr>) =
     (Inr [], world0\<lparr>registry := RegistryFile Unparseable, logs := [ERROR]\<rparr>)"
    by (simp add: world0_def)
  moreover from load_degrades [of env_ok world0 "js ''demo''"] b
  have "fst (loadProjectConfig env_ok (js ''demo'') world0) =
     Inr \<lparr>c_name = js ''demo'', c_path = None, c_sftpUser = None, services = [],
          c_createdAt = 0, c_updatedAt = None\<rparr>"
    by (auto simp: env_ok_def)
  ultimately show ?thesis by simp
qed

section \<open>A project without services\<close>

lemma listServices_trace: "listServices e p w = (r, w1) \<Longrightarrow> trace w1 = trace w"
  by (auto simp: listServices_def loadProjectConfig_def prog_defs date_now_def Let_def
      split: json_file.splits option.splits)

text \<open>
  Claim C10. When the project declares no service (\<^verbatim>\<open>listServices\<close> returns the
  empty list), \<^verbatim>\<open>startAllServices\<close> throws the no-service error, while
  \<^verbatim>\<open>stopAllServices\<close> returns normally; both leave the world as \<^verbatim>\<open>listServices\<close>
  left it, and no command has been issued.
\<close>

theorem no_services_start_raises_stop_returns:
  assumes "listServices e projectName w = (Inr [], w1)"
  shows "startAllServices e projectName runSetup w = (Inl NoServices, w1) \<and>
         stopAllServices e projectName w = (Inr (), w1) \<and>
         trace w1 = trace w"
  using assms listServices_trace [OF assms]
  by (simp add: startAllServices_def stopAllServices_def and_then_def throw_def ret_def)

theorem no_services_start_raises_stop_returns_witness:
  "startAllServices env_ok (js ''demo'') True world0 = (Inl NoServices, world0) \<and>
   stopAllServices env_ok (js ''demo'') world0 = (Inr (), world0) \<and>
   trace world0 = []"
proof -
  have "listServices env_ok (js ''demo'') world0 = (Inr [], world0)"
    by (simp add: listServices_def loadProjectConfig_def prog_defs date_now_def world0_def Let_def)
  from no_services_start_raises_stop_returns [OF this, of True]
  show ?thesis by (simp add: world0_def)
qed

section \<open>stopAllServices attempts every service\<close>

lemma stopAttempts_append: "stopAttempts (xs @ ys) = stopAttempts xs @ stopAttempts ys"
  by (induction xs rule: stopAttempts.induct) auto

lemma loadProjectConfig_doc:
  "configs w (configPathOf projectName) = Some (Doc config) \<Longrightarrow>
   loadProjectConfig e projectName w = (Inr config, w)"
  by (simp add: loadProjectConfig_def configPathOf_def prog_defs Let_def)

lemma getService_doc:
  "configs w (configPathOf projectName) = Some (Doc config) \<Longrightarrow>
   getService e projectName serviceName w =
     (Inr (find (\<lambda>s. name s = serviceName) (services config)), w)"
  by (simp add: getService_def loadProjectConfig_doc and_then_def ret_def)

lemma stopService_attempt:
  assumes "configs w (configPathOf projectName) = Some (Doc config)"
    and "find (\<lambda>s. name s = serviceName) (services config) = Some s"
  shows "\<exists>r w' evs. stopService e projectName serviceName w = (r, w') \<and>
           trace w' = trace w @ evs \<and> configs w' = configs w \<and>
           stopAttempts evs = [pm2NameOf projectName serviceName s]"
  using assms
  by (auto simp: stopService_def getService_doc pm2Command_def execCommand_def prog_defs Let_def js_def)


lemma find_declared:
  "s \<in> set declared \<Longrightarrow> \<exists>x. find (\<lambda>x. name x = name s) declared = Some x"
  by (cases "find (\<lambda>x. name x = name s) declared") (auto simp: find_None_iff)

lemma find_distinct_names:
  "distinct (map name declared) \<Longrightarrow> s \<in> set declared \<Longrightarrow>
   find (\<lambda>x. name x = name s) declared = Some s"
proof (induction declared)
  case Nil
  then show ?case by simp
next
  case (Cons d declared)
  then show ?case by (cases "name d = name s") force+
qed

lemma resolved_distinct:
  assumes "distinct (map name declared)" "set ss \<subseteq> set declared"
  shows "concat (map (resolvedPm2Names projectName declared) ss) =
         map (\<lambda>s. pm2NameOf projectName (name s) s) ss"
  using assms(2)
proof (induction ss)
  case Nil
  then show ?case by simp
next
  case (Cons s ss)
  then have "find (\<lambda>x. name x = name s) declared = Some s"
    using find_distinct_names [OF assms(1)] by simp
  with Cons show ?case by (simp add: resolvedPm2Names_def)
qed

lemma stopAllLoop_attempts:
  assumes "configs w (configPathOf projectName) = Some (Doc config)"
    and "set ss \<subseteq> set (services config)"
  shows "\<exists>w' evs. stopAllLoop e projectName ss w = (Inr (), w') \<and>
           trace w' = trace w @ evs \<and> configs w' = configs w \<and>
           stopAttempts evs = concat (map (resolvedPm2Names projectName (services config)) ss)"
  using assms
proof (induction ss arbitrary: w)
  case Nil
  then show ?case by (simp add: ret_def)
next
  case (Cons s ss)
  then obtain x where x: "find (\<lambda>x. name x = name s) (services config) = Some x"
    using find_declared [of s "services config"] by auto
  obtain r w1 evs1 where st: "stopService e projectName (name s) w = (r, w1)"
      "trace w1 = trace w @ evs1" "configs w1 = configs w"
      "stopAttempts evs1 = [pm2NameOf projectName (name s) x]"
    using stopService_attempt [OF Cons.prems(1) x] by blast
  obtain w2 where tc: "try_catch (stopService e projectName (name s)) (\<lambda>_. logger ERROR) w
        = (Inr (), w2)" "trace w2 = trace w1" "configs w2 = configs w1"
    using st(1) by (cases r) (auto simp: try_catch_def logger_def)
  have c2: "configs w2 (configPathOf projectName) = Some (Doc config)"
    using tc st Cons.prems by simp
  obtain w' evs where ih: "stopAllLoop e projectName ss w2 = (Inr (), w')"
      "trace w' = trace w2 @ evs" "configs w' = configs w2"
      "stopAttempts evs = concat (map (resolvedPm2Names projectName (services config)) ss)"
    using Cons.IH [OF c2] Cons.prems(2) by auto
  have "stopAllLoop e projectName (s # ss) w = (Inr (), w')"
    using tc(1) ih(1) by (simp add: and_then_def)
  moreover have "trace w' = trace w @ (evs1 @ evs)" using ih tc st by simp
  moreover have "configs w' = configs w" using ih tc st by simp
  moreover have "stopAttempts (evs1 @ evs) =
      concat (map (resolvedPm2Names projectName (services config)) (s # ss))"
    using st(4) ih(4) x by (simp add: stopAttempts_append resolvedPm2Names_def)
  ultimately show ?case by blast
qed

lemma listServices_cases:
  "(\<exists>config. configs w (configPathOf projectName) = Some (Doc config) \<and>
       listServices e projectName w = (Inr (services config), w)) \<or>
   (\<exists>w1. listServices e projectName w = (Inr [], w1))"
  by (auto simp: listServices_def loadProjectConfig_def configPathOf_def prog_defs date_now_def
      Let_def split: option.splits json_file.splits)

lemma stopAllServices_doc:
  assumes "configs w (configPathOf projectName) = Some (Doc config)"
  shows "\<exists>w' evs. stopAllServices e projectName w = (Inr (), w') \<and>
           trace w' = trace w @ evs \<and>
           stopAttempts evs =
             concat (map (resolvedPm2Names projectName (services config)) (services config))"
proof (cases "services config = []")
  case True
  then show ?thesis
    using assms
    by (simp add: stopAllServices_def listServices_def loadProjectConfig_doc and_then_def ret_def)
next
  case False
  obtain w1 where l: "logger INFO w = (Inr (), w1)" "trace w1 = trace w" "configs w1 = configs w"
    by (simp add: logger_def)
  then have c1: "configs w1 (configPathOf projectName) = Some (Doc config)"
    using assms by simp
  obtain w2 evs where lp: "stopAllLoop e projectName (services config) w1 = (Inr (), w2)"
      "trace w2 = trace w1 @ evs"
      "stopAttempts evs =
         concat (map (resolvedPm2Names projectName (services config)) (services config))"
    using stopAllLoop_attempts [OF c1, of "services config" e] by auto
  have "stopAllServices e projectName w = logger SUCCESS w2"
    using False assms l(1) lp(1)
    by (simp add: stopAllServices_def listServices_def loadProjectConfig_doc and_then_def ret_def)
  with lp l show ?thesis by (simp add: logger_def)
qed

text \<open>
  Claim C8. \<^verbatim>\<open>stopAllServices\<close> never throws, whatever the environment answers. When
  the project's document is readable, the \<^verbatim>\<open>pm2 stop\<close> commands it issues are, in
  declaration order, one for each declared service, keyed by the process name that
  \<^verbatim>\<open>stopService\<close> resolves for the service's name; with distinct service names (as
  \<^verbatim>\<open>addService\<close> keeps them) that is the service's own process name. A failing stop
  command changes nothing for the services after it: the witness is the project with
  three services where the stop of the second fails.
\<close>

theorem stopAllServices_attempts_all:
  "(\<exists>w'. stopAllServices e projectName w = (Inr (), w')) \<and>
   (configs w (configPathOf projectName) = Some (Doc config) \<longrightarrow>
      stopAttempts (drop (length (trace w)) (trace (snd (stopAllServices e projectName w)))) =
        concat (map (resolvedPm2Names projectName (services config)) (services config))) \<and>
   (configs w (configPathOf projectName) = Some (Doc config) \<and>
    distinct (map name (services config)) \<longrightarrow>
      stopAttempts (drop (length (trace w)) (trace (snd (stopAllServices e projectName w)))) =
        map (\<lambda>s. pm2NameOf projectName (name s) s) (services config))"
proof -
  have a: "\<exists>w'. stopAllServices e projectName w = (Inr (), w')"
    using listServices_cases [of w projectName e]
  proof
    assume "\<exists>config. configs w (configPathOf projectName) = Some (Doc config) \<and>
       listServices e projectName w = (Inr (services config), w)"
    then show ?thesis using stopAllServices_doc by blast
  next
    assume "\<exists>w1. listServices e projectName w = (Inr [], w1)"
    then show ?thesis by (auto simp: stopAllServices_def and_then_def ret_def)
  qed
  have b: "configs w (configPathOf projectName) = Some (Doc config) \<longrightarrow>
      stopAttempts (drop (length (trace w)) (trace (snd (stopAllServices e projectName w)))) =
        concat (map (resolvedPm2Names projectName (services config)) (services config))"
  proof
    assume "configs w (configPathOf projectName) = Some (Doc config)"
    from stopAllServices_doc [OF this, of e]
    show "stopAttempts (drop (length (trace w)) (trace (snd (stopAllServices e projectName w)))) =
        concat (map (resolvedPm2Names projectName (services config)) (services config))"
      by auto
  qed
  from a b show ?thesis
    using resolved_distinct [of "services config" "services config" projectName] by auto
qed


lemma configPathOf_demo: "configPathOf (js ''demo'') = js ''/var/www/demo/project.json''"
  by (simp add: configPathOf_def path_defs const_defs js_def)

lemma stopAllServices_three_run:
  "stopAllServices env_second_stop_fails (js ''demo'') world_three =
     (Inr (),
      world_three\<lparr>
        trace := [Exec (js ''pm2 stop demo-api'') None True,
                  Exec (js ''pm2 save'') None True,
                  Exec (js ''pm2 stop demo-web'') None False,
                  Exec (js ''pm2 stop demo-jobs'') None True,
                  Exec (js ''pm2 save'') None True],
        logs := [INFO, INFO, DEBUG, DEBUG, SUCCESS, INFO, DEBUG, DEBUG, ERROR,
                 INFO, DEBUG, DEBUG, SUCCESS, SUCCESS]\<rparr>)"
  by (simp add: stopAllServices_def listServices_def stopService_def getService_def
      loadProjectConfig_def pm2NameOf_def prog_defs shell_defs path_defs const_defs
      env_second_stop_fails_def env_ok_def world_three_def world_demo_def world0_def
      three_services_def Let_def js_def)

theorem stopAllServices_attempts_all_witness:
  "fst (stopAllServices env_second_stop_fails (js ''demo'') world_three) = Inr () \<and>
   trace (snd (stopAllServices env_second_stop_fails (js ''demo'') world_three)) =
     [Exec (js ''pm2 stop demo-api'') None True,
      Exec (js ''pm2 save'') None True,
      Exec (js ''pm2 stop demo-web'') None False,
      Exec (js ''pm2 stop demo-jobs'') None True,
      Exec (js ''pm2 save'') None True] \<and>
   stopAttempts (trace (snd (stopAllServices env_second_stop_fails (js ''demo'') world_three))) =
     [js ''demo-api'', js ''demo-web'', js ''demo-jobs'']"
proof -
  have c: "configs world_three (configPathOf (js ''demo'')) = Some (Doc three_services)"
    by (simp add: configPathOf_demo world_three_def)
  have d: "distinct (map name (services three_services))"
    by (simp add: three_services_def js_def)
  have t: "trace world_three = []"
    by (simp add: world_three_def world_demo_def world0_def)
  from stopAllServices_attempts_all [of env_second_stop_fails "js ''demo''" world_three three_services]
  have "configs world_three (configPathOf (js ''demo'')) = Some (Doc three_services) \<and>
        distinct (map name (services three_services)) \<longrightarrow>
      stopAttempts (drop (length (trace world_three))
        (trace (snd (stopAllServices env_second_stop_fails (js ''demo'') world_three)))) =
      map (\<lambda>s. pm2NameOf (js ''demo'') (name s) s) (services three_services)"
    by blast
  with c d t
  have "stopAttempts (trace (snd (stopAllServices env_second_stop_fails (js ''demo'') world_three))) =
      map (\<lambda>s. pm2NameOf (js ''demo'') (name s) s) (services three_services)"
    by simp
  then have "stopAttempts (trace (snd (stopAllServices env_second_stop_fails (js ''demo'') world_three))) =
     [js ''demo-api'', js ''demo-web'', js ''demo-jobs'']"
    by (simp add: three_services_def pm2NameOf_def js_def)
  then show ?thesis by (simp add: stopAllServices_three_run)
qed

section \<open>startService\<close>

lemma getPm2ProcessStatus_run:
  "getPm2ProcessStatus e pm2 w =
     (Inr (if processListed e w pm2 then Some pm2 else None),
      w\<lparr>logs := logs w @ (if cmd_ok e (trace w) (js ''pm2 jlist'') None then [DEBUG] else [DEBUG, DEBUG]),
        trace := trace w @ [Exec (js ''pm2 jlist'') None (cmd_ok e (trace w) (js ''pm2 jlist'') None)]\<rparr>)"
proof (cases "cmd_ok e (trace w) (js ''pm2 jlist'') None")
  case False
  then show ?thesis
    by (simp add: getPm2ProcessStatus_def processListed_def execCommand_def prog_defs Let_def)
next
  case True
  show ?thesis
  proof (cases "pm2_jlist e (trace w @ [Exec (js ''pm2 jlist'') None True])")
    case None
    with True show ?thesis
      by (simp add: getPm2ProcessStatus_def processListed_def execCommand_def prog_defs Let_def)
  next
    case (Some processes)
    have "find (\<lambda>p. p = pm2) processes = (if pm2 \<in> set processes then Some pm2 else None)"
      by (induction processes) auto
    with True Some show ?thesis
      by (simp add: getPm2ProcessStatus_def processListed_def execCommand_def prog_defs Let_def)
  qed
qed

lemma pm2Command_run:
  "pm2Command e args w =
     (if cmd_ok e (trace w) (js ''pm2 '' @ args) None
      then (Inr (), w\<lparr>logs := logs w @ [DEBUG],
                      trace := trace w @ [Exec (js ''pm2 '' @ args) None True]\<rparr>)
      else (Inl (Pm2Error args), w\<lparr>logs := logs w @ [DEBUG, DEBUG],
                      trace := trace w @ [Exec (js ''pm2 '' @ args) None False]\<rparr>))"
  by (simp add: pm2Command_def execCommand_def prog_defs Let_def)

lemma start_commands_run:
  "try_catch
     (and_then (getPm2ProcessStatus e pm2) (\<lambda>status.
      and_then
        (case status of
           Some _ \<Rightarrow> pm2Command e (js ''restart '' @ pm2)
         | None \<Rightarrow> pm2Command e (startCommand s pm2)) (\<lambda>_.
      and_then (pm2Command e (js ''save'')) (\<lambda>_.
      logger SUCCESS))))
     (\<lambda>_. throw StartFailed) w = (r, w') \<Longrightarrow>
   (let listed = cmd_ok e (trace w) (js ''pm2 jlist'') None;
        ev0 = Exec (js ''pm2 jlist'') None listed;
        cmd1 = js ''pm2 '' @
          (if processListed e w pm2 then js ''restart '' @ pm2 else startCommand s pm2);
        ok1 = cmd_ok e (trace w @ [ev0]) cmd1 None;
        ev1 = Exec cmd1 None ok1;
        ok2 = cmd_ok e (trace w @ [ev0, ev1]) (js ''pm2 save'') None
    in trace w' = trace w @ [ev0, ev1] @ (if ok1 then [Exec (js ''pm2 save'') None ok2] else []) \<and>
       r = (if ok1 \<and> ok2 then Inr () else Inl StartFailed))"
proof -
  have j: "js ''pm2 '' @ js ''save'' = js ''pm2 save''" by (simp add: js_def)
  assume "try_catch
     (and_then (getPm2ProcessStatus e pm2) (\<lambda>status.
      and_then
        (case status of
           Some _ \<Rightarrow> pm2Command e (js ''restart '' @ pm2)
         | None \<Rightarrow> pm2Command e (startCommand s pm2)) (\<lambda>_.
      and_then (pm2Command e (js ''save'')) (\<lambda>_.
      logger SUCCESS))))
     (\<lambda>_. throw StartFailed) w = (r, w')"
  then show ?thesis
    by (cases "processListed e w pm2")
       (auto simp: try_catch_def and_then_def getPm2ProcessStatus_run pm2Command_run logger_def
          throw_def Let_def j split: if_splits)
qed

lemma setup_step:
  "and_then (logger INFO) (\<lambda>_.
     try_catch
       (and_then (execCommand e cmd (Some dir)) (\<lambda>_. logger SUCCESS))
       (\<lambda>_. throw (SetupFailed cmd))) w =
   (if cmd_ok e (trace w) cmd (Some dir)
    then (Inr (), w\<lparr>logs := logs w @ [INFO, DEBUG, SUCCESS],
                    trace := trace w @ [Exec cmd (Some dir) True]\<rparr>)
    else (Inl (SetupFailed cmd), w\<lparr>logs := logs w @ [INFO, DEBUG, DEBUG],
                    trace := trace w @ [Exec cmd (Some dir) False]\<rparr>))"
  by (simp add: execCommand_def prog_defs Let_def)

lemma runSetupLoop_run:
  "runSetupLoop e s cmds w = (r, w1) \<Longrightarrow>
   trace w1 = trace w @ setupEvents e (trace w) (directory s) cmds \<and>
   r = (case setupFailure e (trace w) (directory s) cmds of
          None \<Rightarrow> Inr () | Some cmd \<Rightarrow> Inl (SetupFailed cmd)) \<and>
   same_files w w1"
proof (induction cmds arbitrary: w)
  case Nil
  then show ?case by (auto simp: ret_def same_files_def)
next
  case (Cons cmd cmds)
  let ?dir = "directory s"
  have unfold: "runSetupLoop e s (cmd # cmds) w =
      and_then
        (and_then (logger INFO) (\<lambda>_.
           try_catch
             (and_then (execCommand e cmd (Some ?dir)) (\<lambda>_. logger SUCCESS))
             (\<lambda>_. throw (SetupFailed cmd))))
        (\<lambda>_. runSetupLoop e s cmds) w"
    by (simp add: and_then_def split: prod.splits sum.splits)
  show ?case
  proof (cases "cmd_ok e (trace w) cmd (Some ?dir)")
    case False
    with Cons.prems show ?thesis
      unfolding unfold by (auto simp: and_then_def [of _ "\<lambda>_. runSetupLoop e s cmds"] setup_step same_files_def)
  next
    case True
    let ?w2 = "w\<lparr>logs := logs w @ [INFO, DEBUG, SUCCESS],
                  trace := trace w @ [Exec cmd (Some ?dir) True]\<rparr>"
    from True Cons.prems have "runSetupLoop e s cmds ?w2 = (r, w1)"
      unfolding unfold by (simp add: and_then_def [of _ "\<lambda>_. runSetupLoop e s cmds"] setup_step)
    from Cons.IH [OF this] True show ?thesis by (simp add: same_files_def)
  qed
qed

lemma runSetupCommands_run:
  assumes "runSetupCommands e s w = (r, w1)"
  shows "trace w1 = trace w @ setupEvents e (trace w) (directory s) (setupCommands s) \<and>
         r = (case setupFailure e (trace w) (directory s) (setupCommands s) of
                None \<Rightarrow> Inr () | Some cmd \<Rightarrow> Inl (SetupFailed cmd)) \<and>
         same_files w w1"
proof (cases "setupCommands s = []")
  case True
  with assms show ?thesis by (auto simp: runSetupCommands_def ret_def same_files_def)
next
  case False
  with assms have "runSetupLoop e s (setupCommands s) (w\<lparr>logs := logs w @ [INFO]\<rparr>) = (r, w1)"
    by (simp add: runSetupCommands_def and_then_def logger_def)
  from runSetupLoop_run [OF this] show ?thesis by (simp add: same_files_def)
qed

text \<open>
  What the setup issues, said without the recursion: the events are the successful runs
  of the commands before the first failing one, in their order and in the service
  directory, followed by the failed run of that command if there is one; when no command
  fails, every command has run.
\<close>

lemma setupEvents_shape:
  "\<exists>ran. setupEvents e h dir cmds =
            map (\<lambda>cmd. Exec cmd (Some dir) True) ran @
            (case setupFailure e h dir cmds of
               None \<Rightarrow> [] | Some cmd \<Rightarrow> [Exec cmd (Some dir) False]) \<and>
          (case setupFailure e h dir cmds of
             None \<Rightarrow> ran = cmds | Some cmd \<Rightarrow> prefix (ran @ [cmd]) cmds)"
proof (induction cmds arbitrary: h)
  case Nil
  then show ?case by simp
next
  case (Cons cmd cmds)
  show ?case
  proof (cases "cmd_ok e h cmd (Some dir)")
    case False
    then show ?thesis by (intro exI [of _ "[]"]) simp
  next
    case True
    from Cons [of "h @ [Exec cmd (Some dir) True]"] obtain ran where
      "setupEvents e (h @ [Exec cmd (Some dir) True]) dir cmds =
            map (\<lambda>cmd. Exec cmd (Some dir) True) ran @
            (case setupFailure e (h @ [Exec cmd (Some dir) True]) dir cmds of
               None \<Rightarrow> [] | Some cmd \<Rightarrow> [Exec cmd (Some dir) False])"
      "case setupFailure e (h @ [Exec cmd (Some dir) True]) dir cmds of
             None \<Rightarrow> ran = cmds | Some cmd \<Rightarrow> prefix (ran @ [cmd]) cmds"
      by blast
    with True show ?thesis
      by (intro exI [of _ "cmd # ran"]) (auto split: option.splits)
  qed
qed

text \<open>
  Claim C5, as amended. For a declared service (found by name in the project's
  document): if the service directory does not exist, \<^verbatim>\<open>startService\<close> throws and
  nothing is issued. Otherwise, when \<^verbatim>\<open>runSetup\<close> is set, the setup commands run
  first, in their order and in the service directory, up to the first one that fails; if
  one fails, \<^verbatim>\<open>startService\<close> throws the error that names it and nothing more is
  issued, so no supervisor command at all. After a setup without failure (or without
  setup) the supervisor's list is queried; a restart command is issued if the list holds
  an entry named \<^verbatim>\<open>pm2Name\<close>, and a fresh start command with the service's command
  and directory if it does not (or if the list could not be obtained). Only when that
  command succeeds the save command is issued after it, and \<^verbatim>\<open>startService\<close>
  succeeds exactly when both succeed; when the restart or start command fails,
  \<^verbatim>\<open>startService\<close> throws without saving.
\<close>

theorem startService_run:
  assumes doc: "configs w (configPathOf projectName) = Some (Doc config)"
    and found: "find (\<lambda>s. name s = serviceName) (services config) = Some s"
  shows
   "(\<not> path_exists e (trace w) (directory s) \<longrightarrow>
       startService e projectName serviceName runSetup w =
         (Inl (ServiceDirMissing (directory s)), w)) \<and>
    (path_exists e (trace w) (directory s) \<longrightarrow>
       (let cmds = (if runSetup then setupCommands s else []);
            h = trace w @ setupEvents e (trace w) (directory s) cmds
        in case setupFailure e (trace w) (directory s) cmds of
             Some cmd \<Rightarrow>
               fst (startService e projectName serviceName runSetup w) = Inl (SetupFailed cmd) \<and>
               trace (snd (startService e projectName serviceName runSetup w)) = h
           | None \<Rightarrow>
              (let pm2 = pm2NameOf projectName serviceName s;
                   listed = cmd_ok e h (js ''pm2 jlist'') None;
                   ev0 = Exec (js ''pm2 jlist'') None listed;
                   cmd1 = js ''pm2 '' @
                     (if processListed e (w\<lparr>trace := h\<rparr>) pm2 then js ''restart '' @ pm2
                      else startCommand s pm2);
                   ok1 = cmd_ok e (h @ [ev0]) cmd1 None;
                   ev1 = Exec cmd1 None ok1;
                   ok2 = cmd_ok e (h @ [ev0, ev1]) (js ''pm2 save'') None
               in trace (snd (startService e projectName serviceName runSetup w)) =
                    h @ [ev0, ev1] @ (if ok1 then [Exec (js ''pm2 save'') None ok2] else []) \<and>
                  fst (startService e projectName serviceName runSetup w) =
                    (if ok1 \<and> ok2 then Inr () else Inl StartFailed))))"
proof -
  let ?dir = "directory s"
  let ?cmds = "if runSetup then setupCommands s else []"
  let ?h = "trace w @ setupEvents e (trace w) ?dir ?cmds"
  let ?pre = "if runSetup then runSetupCommands e s else ret ()"
  have g: "getService e projectName serviceName w = (Inr (Some s), w)"
    using doc found by (simp add: getService_doc)
  have a: "\<not> path_exists e (trace w) ?dir \<Longrightarrow>
       startService e projectName serviceName runSetup w = (Inl (ServiceDirMissing ?dir), w)"
    unfolding startService_def by (simp add: and_then_def g existsSync_def throw_def)
  obtain r1 w1 where su: "?pre w = (r1, w1)" by (cases "?pre w")
  have s1: "trace w1 = ?h \<and>
      r1 = (case setupFailure e (trace w) ?dir ?cmds of
              None \<Rightarrow> Inr () | Some cmd \<Rightarrow> Inl (SetupFailed cmd))"
  proof (cases runSetup)
    case True
    with su runSetupCommands_run [of e s w r1 w1] show ?thesis by simp
  next
    case False
    with su show ?thesis by (auto simp: ret_def)
  qed
  have b: "fst (startService e projectName serviceName runSetup w) = Inl (SetupFailed cmd) \<and>
           trace (snd (startService e projectName serviceName runSetup w)) = ?h"
    if ex: "path_exists e (trace w) ?dir"
      and fail: "setupFailure e (trace w) ?dir ?cmds = Some cmd" for cmd
  proof -
    from s1 fail have "r1 = Inl (SetupFailed cmd)" by simp
    with su have "startService e projectName serviceName runSetup w = (Inl (SetupFailed cmd), w1)"
      unfolding startService_def using ex by (simp add: and_then_def g existsSync_def)
    with s1 show ?thesis by simp
  qed
  have c: "let pm2 = pm2NameOf projectName serviceName s;
               listed = cmd_ok e ?h (js ''pm2 jlist'') None;
               ev0 = Exec (js ''pm2 jlist'') None listed;
               cmd1 = js ''pm2 '' @
                 (if processListed e (w\<lparr>trace := ?h\<rparr>) pm2 then js ''restart '' @ pm2
                  else startCommand s pm2);
               ok1 = cmd_ok e (?h @ [ev0]) cmd1 None;
               ev1 = Exec cmd1 None ok1;
               ok2 = cmd_ok e (?h @ [ev0, ev1]) (js ''pm2 save'') None
           in trace (snd (startService e projectName serviceName runSetup w)) =
                ?h @ [ev0, ev1] @ (if ok1 then [Exec (js ''pm2 save'') None ok2] else []) \<and>
              fst (startService e projectName serviceName runSetup w) =
                (if ok1 \<and> ok2 then Inr () else Inl StartFailed)"
    if ex: "path_exists e (trace w) ?dir"
      and nofail: "setupFailure e (trace w) ?dir ?cmds = None"
  proof -
    let ?pm2 = "pm2NameOf projectName serviceName s"
    let ?w2 = "w1\<lparr>logs := logs w1 @ [INFO]\<rparr>"
    let ?body = "try_catch
     (and_then (getPm2ProcessStatus e ?pm2) (\<lambda>status.
      and_then
        (case status of
           Some _ \<Rightarrow> pm2Command e (js ''restart '' @ ?pm2)
         | None \<Rightarrow> pm2Command e (startCommand s ?pm2)) (\<lambda>_.
      and_then (pm2Command e (js ''save'')) (\<lambda>_.
      logger SUCCESS))))
     (\<lambda>_. throw StartFailed)"
    from s1 nofail have r1: "r1 = Inr ()" by simp
    have eq: "startService e projectName serviceName runSetup w = ?body ?w2"
      unfolding startService_def using ex su r1
      by (simp add: and_then_def g existsSync_def logger_def Let_def)
    obtain r w' where run: "?body ?w2 = (r, w')" by (cases "?body ?w2")
    have p: "processListed e ?w2 ?pm2 = processListed e (w\<lparr>trace := ?h\<rparr>) ?pm2"
      using s1 by (simp add: processListed_def)
    have t: "trace ?w2 = ?h" using s1 by simp
    from start_commands_run [OF run] show ?thesis
      unfolding p t by (simp add: eq run Let_def)
  qed
  show ?thesis
  proof (intro conjI impI)
    assume "\<not> path_exists e (trace w) ?dir"
    then show "startService e projectName serviceName runSetup w =
        (Inl (ServiceDirMissing ?dir), w)"
      by (rule a)
  next
    assume ex: "path_exists e (trace w) ?dir"
    show "let cmds = ?cmds; h = trace w @ setupEvents e (trace w) ?dir cmds
        in case setupFailure e (trace w) ?dir cmds of
             Some cmd \<Rightarrow>
               fst (startService e projectName serviceName runSetup w) = Inl (SetupFailed cmd) \<and>
               trace (snd (startService e projectName serviceName runSetup w)) = h
           | None \<Rightarrow>
              (let pm2 = pm2NameOf projectName serviceName s;
                   listed = cmd_ok e h (js ''pm2 jlist'') None;
                   ev0 = Exec (js ''pm2 jlist'') None listed;
                   cmd1 = js ''pm2 '' @
                     (if processListed e (w\<lparr>trace := h\<rparr>) pm2 then js ''restart '' @ pm2
                      else startCommand s pm2);
                   ok1 = cmd_ok e (h @ [ev0]) cmd1 None;
                   ev1 = Exec cmd1 None ok1;
                   ok2 = cmd_ok e (h @ [ev0, ev1]) (js ''pm2 save'') None
               in trace (snd (startService e projectName serviceName runSetup w)) =
                    h @ [ev0, ev1] @ (if ok1 then [Exec (js ''pm2 save'') None ok2] else []) \<and>
                  fst (startService e projectName serviceName runSetup w) =
                    (if ok1 \<and> ok2 then Inr () else Inl StartFailed))"
    proof (cases "setupFailure e (trace w) ?dir ?cmds")
      case None
      from c [OF ex None] show ?thesis
        unfolding Let_def None option.case .
    next
      case (Some cmd)
      from b [OF ex Some] show ?thesis
        unfolding Let_def Some option.case .
    qed
  qed
qed

lemma configPathOf_shop: "configPathOf (js ''shop'') = js ''/var/www/shop/project.json''"
  by (simp add: configPathOf_def path_defs const_defs js_def)

theorem startService_run_witness:
  "fst (startService env_ok (js ''shop'') (js ''api'') True world_shop) = Inr () \<and>
   trace (snd (startService env_ok (js ''shop'') (js ''api'') True world_shop)) =
     [Exec (js ''npm install'') (Some (js ''/var/www/shop/sites/api'')) True,
      Exec (js ''npm run build'') (Some (js ''/var/www/shop/sites/api'')) True,
      Exec (js ''pm2 jlist'') None True,
      Exec (js ''pm2 start '' @ [34] @ js ''node server.js'' @ [34] @ js '' --name '' @ [34] @
            js ''shop-api'' @ [34] @ js '' --cwd '' @ [34] @ js ''/var/www/shop/sites/api'' @ [34])
        None True,
      Exec (js ''pm2 save'') None True] \<and>
   fst (startService env_build_fails (js ''shop'') (js ''api'') True world_shop) =
     Inl (SetupFailed (js ''npm run build'')) \<and>
   trace (snd (startService env_build_fails (js ''shop'') (js ''api'') True world_shop)) =
     [Exec (js ''npm install'') (Some (js ''/var/www/shop/sites/api'')) True,
      Exec (js ''npm run build'') (Some (js ''/var/www/shop/sites/api'')) False]"
proof -
  let ?api = "hd (services shop_config)"
  have doc: "configs world_shop (configPathOf (js ''shop'')) = Some (Doc shop_config)"
    by (simp add: configPathOf_shop world_shop_def)
  have found: "find (\<lambda>s. name s = js ''api'') (services shop_config) = Some ?api"
    by (simp add: shop_config_def js_def)
  have t: "trace world_shop = []"
    by (simp add: world_shop_def world0_def)
  have d: "directory ?api = js ''/var/www/shop/sites/api''"
      "setupCommands ?api = [js ''npm install'', js ''npm run build'']"
    by (simp_all add: shop_config_def)
  have ex: "path_exists env_ok (trace world_shop) (directory ?api)"
      "path_exists env_build_fails (trace world_shop) (directory ?api)"
    by (simp_all add: env_ok_def env_build_fails_def)
  have ok: "setupFailure env_ok [] (js ''/var/www/shop/sites/api'')
      [js ''npm install'', js ''npm run build''] = None"
    by (simp add: env_ok_def)
  have ko: "setupFailure env_build_fails [] (js ''/var/www/shop/sites/api'')
      [js ''npm install'', js ''npm run build''] = Some (js ''npm run build'')"
    by (simp add: env_build_fails_def env_ok_def js_def)
  note run = startService_run [OF doc found, of _ True, THEN conjunct2, rule_format]
  from run [OF ex(1)] ok
  have "trace (snd (startService env_ok (js ''shop'') (js ''api'') True world_shop)) =
     [Exec (js ''npm install'') (Some (js ''/var/www/shop/sites/api'')) True,
      Exec (js ''npm run build'') (Some (js ''/var/www/shop/sites/api'')) True,
      Exec (js ''pm2 jlist'') None True,
      Exec (js ''pm2 start '' @ [34] @ js ''node server.js'' @ [34] @ js '' --name '' @ [34] @
            js ''shop-api'' @ [34] @ js '' --cwd '' @ [34] @ js ''/var/www/shop/sites/api'' @ [34])
        None True,
      Exec (js ''pm2 save'') None True] \<and>
     fst (startService env_ok (js ''shop'') (js ''api'') True world_shop) = Inr ()"
    by (simp add: t d Let_def processListed_def env_ok_def startCommand_def pm2NameOf_def
        shop_config_def js_def)
  moreover from run [OF ex(2)] ko
  have "fst (startService env_build_fails (js ''shop'') (js ''api'') True world_shop) =
     Inl (SetupFailed (js ''npm run build'')) \<and>
   trace (snd (startService env_build_fails (js ''shop'') (js ''api'') True world_shop)) =
     [Exec (js ''npm install'') (Some (js ''/var/www/shop/sites/api'')) True,
      Exec (js ''npm run build'') (Some (js ''/var/www/shop/sites/api'')) False]"
    by (simp add: t d Let_def env_build_fails_def env_ok_def js_def)
  ultimately show ?thesis by blast
qed

theorem startService_save_counterexample:
  "path_exists env_restart_fails (trace world_three) (js ''/var/www/demo/sites/api'') \<and>
   processListed env_restart_fails world_three (js ''demo-api'') \<and>
   startService env_restart_fails (js ''demo'') (js ''api'') False world_three =
     (Inl StartFailed,
      world_three\<lparr>
        trace := [Exec (js ''pm2 jlist'') None True,
                  Exec (js ''pm2 restart demo-api'') None False],
        logs := [INFO, DEBUG, DEBUG, DEBUG]\<rparr>)"
  by (simp add: startService_def getService_def loadProjectConfig_def getPm2ProcessStatus_def
      processListed_def pm2NameOf_def prog_defs shell_defs path_defs const_defs
      env_restart_fails_def env_ok_def world_three_def world_demo_def world0_def
      three_services_def Let_def js_def)

section \<open>The directory of a service\<close>

lemma split_on_not_Nil: "split_on sep s \<noteq> []"
  by (induction s) (auto split: list.splits)

lemma split_on_append_sep:
  "split_on sep (a @ sep # b) = split_on sep a @ split_on sep b"
proof (induction a)
  case Nil
  then show ?case by simp
next
  case (Cons c a)
  obtain x xs where "split_on sep a = x # xs"
    using split_on_not_Nil [of sep a] by (cases "split_on sep a") auto
  with Cons show ?case by simp
qed

lemma join_split: "join_with [sep] (split_on sep s) = s"
proof (induction s)
  case Nil
  then show ?case by simp
next
  case (Cons c s)
  obtain x xs where x: "split_on sep s = x # xs"
    using split_on_not_Nil [of sep s] by (cases "split_on sep s") auto
  with Cons show ?case by (cases xs) auto
qed

lemma join_with_append:
  "xs \<noteq> [] \<Longrightarrow> ys \<noteq> [] \<Longrightarrow>
   join_with sep (xs @ ys) = join_with sep xs @ sep @ join_with sep ys"
proof (induction sep xs rule: join_with.induct)
  case (1 sep)
  then show ?case by simp
next
  case (2 sep x)
  then show ?case by (cases ys) auto
next
  case (3 sep x y ys')
  then show ?case by simp
qed

lemma normalizeSegments_plain:
  "list_all (\<lambda>seg. seg \<noteq> [] \<and> seg \<noteq> [46] \<and> seg \<noteq> [46, 46]) segs \<Longrightarrow>
   normalizeSegments allowAboveRoot res segs = res @ segs"
  by (induction segs arbitrary: res) auto

lemma plainRelative_not_Nil: "plainRelative p \<Longrightarrow> p \<noteq> []"
  by (auto simp: plainRelative_def)

lemma split_on_singleton_Nil: "split_on sep s = [[]] \<Longrightarrow> s = []"
  by (cases s) (auto simp: split_on_not_Nil split: if_splits list.splits)

lemma split_on_last_sep: "s \<noteq> [] \<Longrightarrow> last s = sep \<Longrightarrow> last (split_on sep s) = []"
proof (induction s)
  case Nil
  then show ?case by simp
next
  case (Cons c s)
  show ?case
  proof (cases "s = []")
    case True
    with Cons show ?thesis by simp
  next
    case False
    with Cons have ih: "last (split_on sep s) = []" by simp
    obtain x xs where x: "split_on sep s = x # xs"
      using split_on_not_Nil [of sep s] by (cases "split_on sep s") auto
    with ih False show ?thesis
      using split_on_singleton_Nil [of sep s] by (cases xs) (auto split: if_splits)
  qed
qed

lemma plainRelative_last: "plainRelative p \<Longrightarrow> last p \<noteq> 47"
proof
  assume p: "plainRelative p" and l: "last p = 47"
  then have "last (split_on 47 p) = []"
    using split_on_last_sep [of p 47] plainRelative_not_Nil by simp
  moreover have "last (split_on 47 p) \<in> set (split_on 47 p)"
    using split_on_not_Nil by simp
  ultimately show False using p by (auto simp: plainRelative_def list_all_iff)
qed

lemma path_join_plain:
  assumes "plainRelative projectName" "plainRelative dir"
  shows "path_join [BASE_PATH, projectName, STRUCTURE_sites, dir] =
         BASE_PATH @ [47] @ projectName @ [47] @ STRUCTURE_sites @ [47] @ dir"
proof -
  let ?plain = "\<lambda>seg::jsstring. seg \<noteq> [] \<and> seg \<noteq> [46] \<and> seg \<noteq> [46, 46]"
  let ?joined = "BASE_PATH @ 47 # projectName @ 47 # STRUCTURE_sites @ 47 # dir"
  define segs where
    "segs = [js ''var'', js ''www''] @ split_on 47 projectName @ [js ''sites''] @ split_on 47 dir"
  define result where
    "result = js ''var/www'' @ [47] @ projectName @ [47] @ js ''sites'' @ [47] @ dir"
  have ne: "projectName \<noteq> []" "dir \<noteq> []"
    using assms by (simp_all add: plainRelative_not_Nil)
  have j: "join_with [47] [BASE_PATH, projectName, STRUCTURE_sites, dir] = ?joined"
    by simp
  have sp: "split_on 47 ?joined = [] # segs"
    unfolding segs_def
    by (simp add: split_on_append_sep) (simp add: BASE_PATH_def STRUCTURE_sites_def js_def)
  have pl: "list_all ?plain segs"
    unfolding segs_def using assms by (simp add: plainRelative_def js_def)
  have ns: "normalizeSegments False [] (split_on 47 ?joined) = segs"
    unfolding sp using normalizeSegments_plain [OF pl, of False "[]"] by simp
  have jw: "join_with [47] segs = result"
  proof -
    have "join_with [47] ([js ''sites''] @ split_on 47 dir) = js ''sites'' @ [47] @ dir"
      using join_with_append [of "[js ''sites'']" "split_on 47 dir" "[47]"]
      by (simp add: split_on_not_Nil join_split)
    then have "join_with [47] (split_on 47 projectName @ [js ''sites''] @ split_on 47 dir) =
        projectName @ [47] @ js ''sites'' @ [47] @ dir"
      using join_with_append [of "split_on 47 projectName" "[js ''sites''] @ split_on 47 dir" "[47]"]
      by (simp add: split_on_not_Nil join_split)
    then show ?thesis
      unfolding segs_def result_def
      using join_with_append [of "[js ''var'', js ''www'']"
          "split_on 47 projectName @ [js ''sites''] @ split_on 47 dir" "[47]"]
      by (simp add: split_on_not_Nil js_def)
  qed
  have rn: "result \<noteq> []" unfolding result_def by simp
  have hd: "hd ?joined = 47" by (simp add: BASE_PATH_def js_def)
  have lst: "last ?joined \<noteq> 47" using plainRelative_last [OF assms(2)] ne by simp
  have "normalize ?joined = [47] @ result"
    using hd lst rn by (simp add: normalize_def Let_def ns jw)
  then show ?thesis
    using ne unfolding result_def
    by (simp add: path_join_def j BASE_PATH_def STRUCTURE_sites_def js_def)
qed


lemma find_appended:
  "\<not> list_ex (\<lambda>s. name s = n) declared \<Longrightarrow> name svc = n \<Longrightarrow>
   find (\<lambda>s. name s = n) (declared @ [svc]) = Some svc"
  by (induction declared) auto

lemma saveProjectConfig_success:
  assumes "saveProjectConfig e projectName config w = (Inr stamped, w')"
  shows "services stamped = services config \<and>
         configs w' (configPathOf projectName) = Some (Doc stamped)"
  using assms
  by (auto simp: saveProjectConfig_def configPathOf_def fs_call_def date_now_def prog_defs Let_def
      split: if_splits)

lemma addService_success:
  assumes "addService e projectName serviceConfig w = (Inr s, w')"
  shows "name s = in_name serviceConfig \<and>
         directory s = servicePathOf projectName (in_directory serviceConfig) \<and>
         pm2Name s = projectName @ js ''-'' @ in_name serviceConfig \<and>
         (\<exists>config. configs w' (configPathOf projectName) = Some (Doc config) \<and>
            find (\<lambda>x. name x = in_name serviceConfig) (services config) = Some s)"
proof -
  obtain config w1 where lp: "loadProjectConfig e projectName w = (Inr config, w1)"
    using loadProjectConfig_never_raises by blast
  let ?n = "in_name serviceConfig"
  let ?path = "servicePathOf projectName (in_directory serviceConfig)"
  have valid: "validName ?n"
    using assms by (cases "validName ?n") (simp_all add: addService_def throw_def)
  have nodup: "\<not> list_ex (\<lambda>x. name x = ?n) (services config)"
    using assms valid
    by (cases "list_ex (\<lambda>x. name x = ?n) (services config)")
       (simp_all add: addService_def and_then_def lp throw_def)
  obtain rA wA where A:
    "(if \<not> path_exists e (trace w1) ?path
      then and_then (fs_call e (MkDir ?path) True) (\<lambda>_. logger INFO)
      else ret ()) w1 = (rA, wA)"
    by (cases "(if \<not> path_exists e (trace w1) ?path
      then and_then (fs_call e (MkDir ?path) True) (\<lambda>_. logger INFO)
      else ret ()) w1")
  let ?service = "\<lparr>name = in_name serviceConfig,
                 directory = ?path,
                 setupCommands =
                   (case in_setupCommands serviceConfig of None \<Rightarrow> [] | Some cs \<Rightarrow> cs),
                 command = or_else (in_command serviceConfig) (js ''npm start''),
                 description = or_else (in_description serviceConfig) [],
                 pm2Name = projectName @ js ''-'' @ in_name serviceConfig,
                 createdAt = now e (trace wA),
                 updatedAt = None\<rparr>"
  obtain r3 w3 where sv: "saveProjectConfig e projectName
       (config\<lparr>services := services config @ [?service]\<rparr>) wA = (r3, w3)"
    by (cases "saveProjectConfig e projectName
       (config\<lparr>services := services config @ [?service]\<rparr>) wA")
  have run: "addService e projectName serviceConfig w =
      (case rA of
         Inl err \<Rightarrow> (Inl err, wA)
       | Inr _ \<Rightarrow>
           (case r3 of
              Inl err \<Rightarrow> (Inl err, w3)
            | Inr _ \<Rightarrow> (Inr ?service, w3\<lparr>logs := logs w3 @ [SUCCESS]\<rparr>)))"
    using A sv
    by (simp add: addService_def and_then_def lp valid nodup existsSync_def date_now_def
        logger_def ret_def Let_def split: sum.split)
  from assms run obtain u where u: "rA = Inr u" by (cases rA) auto
  from assms run u obtain stamped where st: "r3 = Inr stamped" by (cases r3) auto
  from assms run u st have res: "s = ?service" "w' = w3\<lparr>logs := logs w3 @ [SUCCESS]\<rparr>"
    by auto
  from saveProjectConfig_success [OF sv [unfolded st]]
  have "services stamped = services config @ [?service]"
      "configs w3 (configPathOf projectName) = Some (Doc stamped)"
    by simp_all
  moreover have "find (\<lambda>x. name x = ?n) (services config @ [?service]) = Some ?service"
    using nodup by (simp add: find_appended)
  ultimately show ?thesis using res by auto
qed


lemma plainRelative_not_absolute: "plainRelative dir \<Longrightarrow> \<not> startsWithSlash dir"
  by (cases dir) (auto simp: plainRelative_def startsWithSlash_def)

text \<open>
  Claim C7, as amended. After a successful \<^verbatim>\<open>addService\<close>, \<^verbatim>\<open>getService\<close> returns
  the stored service. Its directory is the input unchanged when the input starts with
  \<open>/\<close>, and otherwise \<^verbatim>\<open>path.join(BASE_PATH, projectName, 'sites', directory)\<close>, which
  is a normalised path: it is the text \<^verbatim>\<open>BASE_PATH/projectName/sites/directory\<close> when
  the project name and the directory are made of plain segments, but \<open>.\<close>, \<open>..\<close> and
  empty segments are resolved away.
\<close>

theorem addService_getService_directory:
  assumes "addService e projectName serviceConfig w = (Inr s, w')"
  shows "getService e' projectName (in_name serviceConfig) w' = (Inr (Some s), w') \<and>
         directory s =
           (if startsWithSlash (in_directory serviceConfig) then in_directory serviceConfig
            else path_join [BASE_PATH, projectName, STRUCTURE_sites, in_directory serviceConfig]) \<and>
         (plainRelative projectName \<and> plainRelative (in_directory serviceConfig) \<longrightarrow>
            directory s =
              BASE_PATH @ [47] @ projectName @ [47] @ STRUCTURE_sites @ [47] @
              in_directory serviceConfig)"
proof -
  from addService_success [OF assms] obtain config where
    d: "directory s = servicePathOf projectName (in_directory serviceConfig)"
    and c: "configs w' (configPathOf projectName) = Some (Doc config)"
    and f: "find (\<lambda>x. name x = in_name serviceConfig) (services config) = Some s"
    by blast
  have "getService e' projectName (in_name serviceConfig) w' = (Inr (Some s), w')"
    using c f by (simp add: getService_doc)
  moreover have "directory s =
           (if startsWithSlash (in_directory serviceConfig) then in_directory serviceConfig
            else path_join [BASE_PATH, projectName, STRUCTURE_sites, in_directory serviceConfig])"
    using d by (simp add: servicePathOf_def)
  moreover have "directory s =
              BASE_PATH @ [47] @ projectName @ [47] @ STRUCTURE_sites @ [47] @
              in_directory serviceConfig"
    if "plainRelative projectName" "plainRelative (in_directory serviceConfig)"
    using d that plainRelative_not_absolute [OF that(2)]
    by (simp add: servicePathOf_def path_join_plain)
  ultimately show ?thesis by blast
qed

lemma addService_api_run:
  "addService env_ok (js ''demo'') (api_input\<lparr>in_directory := dir\<rparr>) world0 =
     (Inr \<lparr>name = js ''api'', directory = servicePathOf (js ''demo'') dir,
           setupCommands = [js ''npm install''], command = js ''node server.js'',
           description = [], pm2Name = js ''demo-api'', createdAt = 0, updatedAt = None\<rparr>,
      world0\<lparr>configs := (configs world0)(js ''/var/www/demo/project.json'' := Some (Doc
          \<lparr>c_name = js ''demo'', c_path = None, c_sftpUser = None,
           services = [\<lparr>name = js ''api'', directory = servicePathOf (js ''demo'') dir,
             setupCommands = [js ''npm install''], command = js ''node server.js'',
             description = [], pm2Name = js ''demo-api'', createdAt = 0, updatedAt = None\<rparr>],
           c_createdAt = 0, c_updatedAt = Some 0\<rparr>)),
        trace := [Fs (WriteFile (js ''/var/www/demo/project.json'')) True],
        logs := [DEBUG, SUCCESS]\<rparr>)"
  by (simp add: addService_def loadProjectConfig_def saveProjectConfig_def api_input_def
      validName_def isLetter_def isNameChar_def or_else_def
      prog_defs shell_defs path_defs const_defs env_ok_def world0_def Let_def js_def)

theorem addService_getService_directory_witness:
  "fst (getService env_ok (js ''demo'') (js ''api'')
          (snd (addService env_ok (js ''demo'') api_input world0))) =
     map_sum id Some (fst (addService env_ok (js ''demo'') api_input world0)) \<and>
   map_sum id directory (fst (addService env_ok (js ''demo'') api_input world0)) =
     Inr (js ''/var/www/demo/sites/api'')"
proof -
  have i: "api_input\<lparr>in_directory := js ''api''\<rparr> = api_input" by (simp add: api_input_def)
  have n: "in_name api_input = js ''api''" "in_directory api_input = js ''api''"
    by (simp_all add: api_input_def)
  have p: "plainRelative (js ''demo'')" "plainRelative (js ''api'')"
    by (simp_all add: plainRelative_def js_def)
  obtain s w' where run: "addService env_ok (js ''demo'') api_input world0 = (Inr s, w')"
    using addService_api_run [of "js ''api''", unfolded i] by simp
  note t = addService_getService_directory [OF run, of env_ok]
  have g: "getService env_ok (js ''demo'') (js ''api'') w' = (Inr (Some s), w')"
    using t [THEN conjunct1] n by simp
  have d: "directory s =
      BASE_PATH @ [47] @ js ''demo'' @ [47] @ STRUCTURE_sites @ [47] @ js ''api''"
    using t [THEN conjunct2, THEN conjunct2] p n by simp
  have "BASE_PATH @ [47] @ js ''demo'' @ [47] @ STRUCTURE_sites @ [47] @ js ''api'' =
      js ''/var/www/demo/sites/api''"
    by (simp add: const_defs js_def)
  with g d show ?thesis by (simp add: run)
qed

theorem addService_directory_counterexample:
  "\<not> startsWithSlash (js ''../shared'') \<and>
   map_sum id directory (fst (addService env_ok (js ''demo'') shared_input world0)) =
     Inr (js ''/var/www/demo/shared'') \<and>
   map_sum id (map_option directory)
     (fst (getService env_ok (js ''demo'') (js ''api'')
        (snd (addService env_ok (js ''demo'') shared_input world0)))) =
     Inr (Some (js ''/var/www/demo/shared'')) \<and>
   js ''/var/www/demo/shared'' \<noteq> BASE_PATH @ js ''/demo/sites/'' @ js ''../shared''"
proof -
  have p: "servicePathOf (js ''demo'') (js ''../shared'') = js ''/var/www/demo/shared''"
    by (simp add: servicePathOf_def startsWithSlash_def path_defs const_defs js_def)
  obtain s w' where run: "addService env_ok (js ''demo'') shared_input world0 = (Inr s, w')"
    and d: "directory s = js ''/var/www/demo/shared''"
    using addService_api_run [of "js ''../shared''"] p by (simp add: shared_input_def)
  from addService_success [OF run] obtain config where
    c: "configs w' (configPathOf (js ''demo'')) = Some (Doc config)"
    and f: "find (\<lambda>x. name x = in_name shared_input) (services config) = Some s"
    by blast
  have n: "in_name shared_input = js ''api''"
    by (simp add: shared_input_def api_input_def)
  have g: "getService env_ok (js ''demo'') (js ''api'') w' = (Inr (Some s), w')"
    using c f n by (simp add: getService_doc)
  have a: "\<not> startsWithSlash (js ''../shared'')"
    by (simp add: startsWithSlash_def js_def)
  have b: "js ''/var/www/demo/shared'' \<noteq> BASE_PATH @ js ''/demo/sites/'' @ js ''../shared''"
    by (simp add: BASE_PATH_def js_def)
  from a b show ?thesis by (simp add: run g d)
qed

section \<open>Process names\<close>

lemma findIndex_Some:
  "findIndex P xs = Some i \<Longrightarrow> i < length xs \<and> P (xs ! i)"
proof (induction xs arbitrary: i)
  case Nil
  then show ?case by simp
next
  case (Cons x xs)
  then show ?case by (cases "P x") auto
qed

lemma map_list_update_same:
  "i < length xs \<Longrightarrow> f y = f (xs ! i) \<Longrightarrow> map f (xs[i := y]) = map f xs"
  by (simp add: map_update list_update_same_conv)

lemma addService_ab_c_run:
  "addService env_ok (js ''a-b'') c_input world0 =
     (Inr \<lparr>name = js ''c'', directory = js ''/var/www/a-b/sites/c'',
           setupCommands = [], command = js ''npm start'',
           description = [], pm2Name = js ''a-b-c'', createdAt = 0, updatedAt = None\<rparr>,
      world0\<lparr>configs := (configs world0)(js ''/var/www/a-b/project.json'' := Some (Doc
          \<lparr>c_name = js ''a-b'', c_path = None, c_sftpUser = None,
           services = [\<lparr>name = js ''c'', directory = js ''/var/www/a-b/sites/c'',
             setupCommands = [], command = js ''npm start'',
             description = [], pm2Name = js ''a-b-c'', createdAt = 0, updatedAt = None\<rparr>],
           c_createdAt = 0, c_updatedAt = Some 0\<rparr>)),
        trace := [Fs (WriteFile (js ''/var/www/a-b/project.json'')) True],
        logs := [DEBUG, SUCCESS]\<rparr>)"
  by (simp add: addService_def loadProjectConfig_def saveProjectConfig_def c_input_def
      validName_def isLetter_def isNameChar_def or_else_def servicePathOf_def startsWithSlash_def
      prog_defs shell_defs path_defs const_defs env_ok_def world0_def Let_def js_def)

lemma addService_a_bc_run:
  "addService env_ok (js ''a'') bc_input
     (world0\<lparr>configs := cs, trace := tr, logs := ls\<rparr>) =
     (Inr \<lparr>name = js ''b-c'', directory = js ''/var/www/a/sites/b-c'',
           setupCommands = [], command = js ''npm start'',
           description = [], pm2Name = js ''a-b-c'', createdAt = 0, updatedAt = None\<rparr>,
      world0\<lparr>configs := cs(js ''/var/www/a/project.json'' := Some (Doc
          \<lparr>c_name = js ''a'', c_path = None, c_sftpUser = None,
           services = [\<lparr>name = js ''b-c'', directory = js ''/var/www/a/sites/b-c'',
             setupCommands = [], command = js ''npm start'',
             description = [], pm2Name = js ''a-b-c'', createdAt = 0, updatedAt = None\<rparr>],
           c_createdAt = 0, c_updatedAt = Some 0\<rparr>)),
        trace := tr @ [Fs (WriteFile (js ''/var/www/a/project.json'')) True],
        logs := ls @ [DEBUG, SUCCESS]\<rparr>)"
  if "cs (js ''/var/www/a/project.json'') = None"
  using that
  by (simp add: addService_def loadProjectConfig_def saveProjectConfig_def bc_input_def
      validName_def isLetter_def isNameChar_def or_else_def servicePathOf_def startsWithSlash_def
      prog_defs shell_defs path_defs const_defs env_ok_def world0_def Let_def js_def)

text \<open>
  Every service that \<^verbatim>\<open>addService\<close> stores carries the name it was given and the
  process name \<^verbatim>\<open>projectName-serviceName\<close>.
\<close>

theorem addService_derives_pm2Name:
  assumes "addService e projectName serviceConfig w = (Inr s, w')"
  shows "name s = in_name serviceConfig \<and>
         pm2Name s = projectName @ js ''-'' @ in_name serviceConfig"
  using addService_success [OF assms] by simp

theorem addService_derives_pm2Name_witness:
  "map_sum id name (fst (addService env_ok (js ''a-b'') c_input world0)) = Inr (js ''c'') \<and>
   map_sum id pm2Name (fst (addService env_ok (js ''a-b'') c_input world0)) =
     Inr (js ''a-b'' @ js ''-'' @ js ''c'')"
proof -
  obtain s w' where run: "addService env_ok (js ''a-b'') c_input world0 = (Inr s, w')"
    using addService_ab_c_run by simp
  from addService_derives_pm2Name [OF run]
  have "name s = js ''c''" "pm2Name s = js ''a-b'' @ js ''-'' @ js ''c''"
    by (simp_all add: c_input_def)
  then show ?thesis by (simp add: run)
qed

text \<open>
  \<^verbatim>\<open>updateService\<close> leaves the name and the process name of every service of the
  project's document as they were.
\<close>

theorem updateService_keeps_names:
  assumes doc: "configs w (configPathOf projectName) = Some (Doc config)"
    and run: "updateService e projectName serviceName updates w = (Inr s, w')"
  shows "\<exists>config'. configs w' (configPathOf projectName) = Some (Doc config') \<and>
           map name (services config') = map name (services config) \<and>
           map pm2Name (services config') = map pm2Name (services config)"
proof -
  have lp: "loadProjectConfig e projectName w = (Inr config, w)"
    using doc by (rule loadProjectConfig_doc)
  obtain i where i: "findIndex (\<lambda>x. name x = serviceName) (services config) = Some i"
    using run
    by (cases "findIndex (\<lambda>x. name x = serviceName) (services config)")
       (simp_all add: updateService_def and_then_def lp throw_def)
  then have il: "i < length (services config)" using findIndex_Some by blast
  define service0 where "service0 = services config ! i"
  define service1 where "service1 =
               (case up_directory updates of
                  None \<Rightarrow> service0
                | Some d \<Rightarrow>
                    if d = [] then service0
                    else service0\<lparr>directory := servicePathOf projectName d\<rparr>)"
  define service2 where "service2 =
               (case up_command updates of
                  None \<Rightarrow> service1
                | Some c \<Rightarrow> if c = [] then service1 else service1\<lparr>command := c\<rparr>)"
  define service3 where "service3 =
               (case up_setupCommands updates of
                  None \<Rightarrow> service2
                | Some cs \<Rightarrow> service2\<lparr>setupCommands := cs\<rparr>)"
  define service4 where "service4 =
               (case up_description updates of
                  None \<Rightarrow> service3
                | Some d \<Rightarrow> service3\<lparr>description := d\<rparr>)"
  define service where "service = service4\<lparr>updatedAt := Some (now e (trace w))\<rparr>"
  have keep: "name service = name (services config ! i)"
      "pm2Name service = pm2Name (services config ! i)"
    unfolding service_def service4_def service3_def service2_def service1_def service0_def
    by (simp_all split: option.splits)
  obtain r3 w3 where sv: "saveProjectConfig e projectName
        (config\<lparr>services := (services config)[i := service]\<rparr>) w = (r3, w3)"
    by (cases "saveProjectConfig e projectName
        (config\<lparr>services := (services config)[i := service]\<rparr>) w")
  have eq: "updateService e projectName serviceName updates w =
      (case r3 of Inl err \<Rightarrow> (Inl err, w3)
       | Inr _ \<Rightarrow> (Inr service, w3\<lparr>logs := logs w3 @ [SUCCESS]\<rparr>))"
    using sv
    unfolding service_def service4_def service3_def service2_def service1_def service0_def
    by (simp add: updateService_def and_then_def lp i date_now_def logger_def ret_def Let_def
        split: sum.split)
  from run eq obtain stamped where st: "r3 = Inr stamped" by (cases r3) auto
  from run eq st have w': "w' = w3\<lparr>logs := logs w3 @ [SUCCESS]\<rparr>" by simp
  from saveProjectConfig_success [OF sv [unfolded st]]
  have "services stamped = (services config)[i := service]"
      "configs w3 (configPathOf projectName) = Some (Doc stamped)"
    by simp_all
  then show ?thesis
    using w' il keep by (auto simp: map_list_update_same)
qed


theorem updateService_keeps_names_witness:
  "\<exists>config'. configs (snd (updateService env_ok (js ''demo'') (js ''web'') new_command world_three))
        (configPathOf (js ''demo'')) = Some (Doc config') \<and>
      map name (services config') = [js ''api'', js ''web'', js ''jobs''] \<and>
      map pm2Name (services config') = [js ''demo-api'', js ''demo-web'', js ''demo-jobs'']"
proof -
  have doc: "configs world_three (configPathOf (js ''demo'')) = Some (Doc three_services)"
    by (simp add: configPathOf_demo world_three_def)
  have lp: "loadProjectConfig env_ok (js ''demo'') world_three = (Inr three_services, world_three)"
    using doc by (rule loadProjectConfig_doc)
  have "\<exists>s. fst (updateService env_ok (js ''demo'') (js ''web'') new_command world_three) = Inr s"
    by (simp only: updateService_def and_then_def lp prod.case sum.case)
       (simp add: saveProjectConfig_def new_command_def three_services_def prog_defs shell_defs
          env_ok_def Let_def js_def)
  then obtain s w' where
    run: "updateService env_ok (js ''demo'') (js ''web'') new_command world_three = (Inr s, w')"
    by (cases "updateService env_ok (js ''demo'') (js ''web'') new_command world_three") auto
  from updateService_keeps_names [OF doc run] show ?thesis
    by (simp add: run three_services_def)
qed

text \<open>
  Claim C9 fails on the code. The names \<open>a-b\<close>, \<open>c\<close>, \<open>a\<close> and \<open>b-c\<close> all match
  the name pattern, which allows \<open>-\<close>; adding service \<open>c\<close> to project \<open>a-b\<close> and
  service \<open>b-c\<close> to project \<open>a\<close> stores the same process name \<open>a-b-c\<close> for both,
  so that a process name does not determine one (project, service) pair.
\<close>

theorem pm2Name_collision:
  "validName (js ''a-b'') \<and> validName (js ''c'') \<and> validName (js ''a'') \<and> validName (js ''b-c'') \<and>
   map_sum id pm2Name (fst (addService env_ok (js ''a-b'') c_input world0)) = Inr (js ''a-b-c'') \<and>
   map_sum id pm2Name
     (fst (addService env_ok (js ''a'') bc_input
        (snd (addService env_ok (js ''a-b'') c_input world0)))) = Inr (js ''a-b-c'') \<and>
   js ''a-b'' \<noteq> js ''a''"
proof -
  have v: "validName (js ''a-b'')" "validName (js ''c'')" "validName (js ''a'')" "validName (js ''b-c'')"
    by (simp_all add: validName_def isLetter_def isNameChar_def js_def)
  have n: "js ''a-b'' \<noteq> js ''a''" by (simp add: js_def)
  have k: "js ''/var/www/a/project.json'' \<noteq> js ''/var/www/a-b/project.json''"
    by (simp add: js_def)
  have c: "configs world0 p = None" for p
    by (simp add: world0_def)
  from v n show ?thesis
    by (simp add: addService_ab_c_run addService_a_bc_run k c)
qed

text \<open>
  What follows from it: when the supervisor runs \<open>a-b-c\<close> for project \<open>a-b\<close>, starting
  service \<open>b-c\<close> of project \<open>a\<close> finds that entry and restarts the other project's
  process instead of starting its own.
\<close>

lemma world_two_projects_configs:
  "configs world_two_projects (configPathOf (js ''a'')) = Some (Doc
          \<lparr>c_name = js ''a'', c_path = None, c_sftpUser = None,
           services = [\<lparr>name = js ''b-c'', directory = js ''/var/www/a/sites/b-c'',
             setupCommands = [], command = js ''npm start'',
             description = [], pm2Name = js ''a-b-c'', createdAt = 0, updatedAt = None\<rparr>],
           c_createdAt = 0, c_updatedAt = Some 0\<rparr>)"
  "trace world_two_projects =
     [Fs (WriteFile (js ''/var/www/a-b/project.json'')) True,
      Fs (WriteFile (js ''/var/www/a/project.json'')) True]"
proof -
  have k: "js ''/var/www/a/project.json'' \<noteq> js ''/var/www/a-b/project.json''"
    by (simp add: js_def)
  have c: "configs world0 p = None" for p
    by (simp add: world0_def)
  have p: "configPathOf (js ''a'') = js ''/var/www/a/project.json''"
    by (simp add: configPathOf_def path_defs const_defs js_def)
  show "configs world_two_projects (configPathOf (js ''a'')) = Some (Doc
          \<lparr>c_name = js ''a'', c_path = None, c_sftpUser = None,
           services = [\<lparr>name = js ''b-c'', directory = js ''/var/www/a/sites/b-c'',
             setupCommands = [], command = js ''npm start'',
             description = [], pm2Name = js ''a-b-c'', createdAt = 0, updatedAt = None\<rparr>],
           c_createdAt = 0, c_updatedAt = Some 0\<rparr>)"
    unfolding p by (simp add: world_two_projects_def addService_ab_c_run addService_a_bc_run k c)
  show "trace world_two_projects =
     [Fs (WriteFile (js ''/var/www/a-b/project.json'')) True,
      Fs (WriteFile (js ''/var/www/a/project.json'')) True]"
    by (simp add: world_two_projects_def addService_ab_c_run addService_a_bc_run k c)
qed

lemma startService_restarts_other_project:
  "startService env_abc_running (js ''a'') (js ''b-c'') False world_two_projects =
     (Inr (),
      world_two_projects\<lparr>
        trace := trace world_two_projects @
          [Exec (js ''pm2 jlist'') None True,
           Exec (js ''pm2 restart a-b-c'') None True,
           Exec (js ''pm2 save'') None True],
        logs := logs world_two_projects @ [INFO, DEBUG, DEBUG, DEBUG, SUCCESS]\<rparr>)"
proof -
  have g: "getService env_abc_running (js ''a'') (js ''b-c'') world_two_projects =
      (Inr (Some \<lparr>name = js ''b-c'', directory = js ''/var/www/a/sites/b-c'',
             setupCommands = [], command = js ''npm start'',
             description = [], pm2Name = js ''a-b-c'', createdAt = 0, updatedAt = None\<rparr>),
       world_two_projects)"
    by (simp add: getService_doc [OF world_two_projects_configs(1)])
  have l: "processListed env_abc_running w (js ''a-b-c'')" for w
    by (simp add: processListed_def env_abc_running_def env_ok_def)
  have j: "js ''pm2 '' @ js ''restart '' @ js ''a-b-c'' = js ''pm2 restart a-b-c''"
      "js ''pm2 '' @ js ''save'' = js ''pm2 save''"
    by (simp_all add: js_def)
  have n: "js ''a-b-c'' \<noteq> []" by (simp add: js_def)
  have ok: "cmd_ok env_abc_running h cmd cwd" "path_exists env_abc_running h p" for h cmd cwd p
    by (simp_all add: env_abc_running_def env_ok_def)
  show ?thesis
    unfolding startService_def
    by (simp add: and_then_def try_catch_def g existsSync_def ret_def logger_def throw_def
        pm2NameOf_def n getPm2ProcessStatus_run pm2Command_run l j ok Let_def)
qed

text \<open>
  The extent of the ambiguity: process names built from project names without \<open>-\<close>
  determine the project and the service; in particular, within one project two
  services with different names never share a process name.
\<close>

theorem pm2Name_unambiguous_without_hyphen:
  assumes "45 \<notin> set projectName" "45 \<notin> set projectName'"
    and "projectName @ js ''-'' @ serviceName = projectName' @ js ''-'' @ serviceName'"
  shows "projectName = projectName' \<and> serviceName = serviceName'"
proof -
  have h: "js ''-'' = [45]" by (simp add: js_def)
  have t: "takeWhile (\<lambda>c. c \<noteq> 45) (p @ 45 # n) = p" if "45 \<notin> set p" for p n :: jsstring
    using that by (auto simp: takeWhile_tail takeWhile_eq_all_conv)
  from assms(3) have "takeWhile (\<lambda>c. c \<noteq> 45) (projectName @ 45 # serviceName) =
      takeWhile (\<lambda>c. c \<noteq> 45) (projectName' @ 45 # serviceName')"
    by (simp add: h)
  then have "projectName = projectName'" using assms(1,2) by (simp add: t)
  with assms(3) show ?thesis by (simp add: h)
qed

theorem pm2Name_unambiguous_without_hyphen_witness:
  "js ''shop'' @ js ''-'' @ js ''api'' = js ''shop'' @ js ''-'' @ js ''api'' \<and>
   js ''shop'' = js ''shop'' \<and> js ''api'' = js ''api''"
proof -
  have a: "45 \<notin> set (js ''shop'')" by (simp add: js_def)
  from pm2Name_unambiguous_without_hyphen [OF a a, of "js ''api''" "js ''api''"]
  show ?thesis by simp
qed

end
